theory Spec2Isabelle
  imports Main "HOL-Library.Word"
begin

unbundle bit_operations_syntax

section \<open>Entity model (device.py)\<close>

text \<open>
  The three entity classes of \<open>device.py\<close> as records. Several classes use the same
  attribute names (\<open>uuid\<close>, \<open>handle\<close>, \<open>state\<close>, \<open>packet\<close>); the fields of
  \<open>Characteristic\<close> carry the prefix \<open>c_\<close> and those of \<open>Service\<close> the prefix
  \<open>s_\<close>, the fields of \<open>Device\<close> keep their names. Python integers are \<open>int\<close>, an
  attribute typed \<open>int | None\<close> is an \<open>int option\<close>, byte strings are lists of
  8-bit words.
\<close>

datatype CharacteristicState =
  NONE | READING | WRITING | SUBSCRIBING_NOTIFICATION | SUBSCRIBING_INDICATION

record Characteristic =
  c_uuid :: string
  c_handle :: int
  properties :: int
  c_state :: CharacteristicState
  c_packet :: string

datatype ServiceState = DISCOVERING | DISCOVERED

record Service =
  s_uuid :: string
  s_handle :: int
  s_state :: ServiceState
  characteristics :: "Characteristic list"

record Device =
  address :: string
  handle :: "int option"
  packet :: string
  is_connectable :: bool
  address_type :: "int option"
  rssi :: "int option"
  is_connected :: bool
  services :: "Service list"

text \<open>The constructors (\<open>__init__\<close>) of the three classes.\<close>

definition Characteristic_init :: "string \<Rightarrow> int \<Rightarrow> int \<Rightarrow> Characteristic" where
  "Characteristic_init u h p =
     \<lparr>c_uuid = u, c_handle = h, properties = p, c_state = NONE, c_packet = []\<rparr>"

definition Service_init :: "string \<Rightarrow> int \<Rightarrow> Service" where
  "Service_init u h =
     \<lparr>s_uuid = u, s_handle = h, s_state = DISCOVERING, characteristics = []\<rparr>"

definition Device_init :: "string \<Rightarrow> Device" where
  "Device_init a =
     \<lparr>address = a, handle = None, packet = [], is_connectable = False,
      address_type = None, rssi = None, is_connected = False, services = []\<rparr>"

text \<open>\<open>Device.on_advertisement\<close>: every transient field is overwritten.\<close>

definition device_on_advertisement :: "Device \<Rightarrow> string \<Rightarrow> int \<Rightarrow> int \<Rightarrow> int \<Rightarrow> Device" where
  "device_on_advertisement d pkt event_flags atype r =
     d\<lparr>packet := pkt, is_connectable := (event_flags AND 1 \<noteq> 0),
       address_type := Some atype, rssi := Some r\<rparr>"

text \<open>
  \<open>Device.get_characteristic_by_handle\<close>: the nested loops over the services and their
  characteristics. The Python returns the object; here the reference is the position
  (service index, characteristic index) of the first match.
\<close>

fun find_index :: "('a \<Rightarrow> bool) \<Rightarrow> 'a list \<Rightarrow> nat option" where
  "find_index P [] = None"
| "find_index P (x # xs) =
     (if P x then Some 0 else map_option Suc (find_index P xs))"

fun get_characteristic_by_handle :: "Service list \<Rightarrow> int \<Rightarrow> (nat \<times> nat) option" where
  "get_characteristic_by_handle [] h = None"
| "get_characteristic_by_handle (s # ss) h =
     (case find_index (\<lambda>c. c_handle c = h) (characteristics s) of
        Some j \<Rightarrow> Some (0, j)
      | None \<Rightarrow> map_option (\<lambda>(i, j). (Suc i, j)) (get_characteristic_by_handle ss h))"

text \<open>\<open>Device.is_using_gatt_command\<close>: the two \<open>any\<close> expressions.\<close>

definition is_using_gatt_command :: "Device \<Rightarrow> bool" where
  "is_using_gatt_command d =
     (list_ex (\<lambda>s. s_state s \<noteq> DISCOVERED) (services d) \<or>
      list_ex (\<lambda>s. list_ex (\<lambda>c. c_state c \<noteq> NONE) (characteristics s)) (services d))"

section \<open>Byte strings and hexadecimal text\<close>

text \<open>
  Python's \<open>bytes.hex()\<close> (two lowercase digits per byte), \<open>str.upper()\<close> on ASCII
  text, and \<open>bytes.fromhex\<close>, which skips ASCII whitespace before a pair of digits and
  raises \<open>ValueError\<close> (here \<open>None\<close>) on anything that is not a pair of hexadecimal
  digits.
\<close>

definition hex_digit :: "nat \<Rightarrow> char" where
  "hex_digit n = ''0123456789abcdef'' ! (n mod 16)"

definition hex_byte :: "8 word \<Rightarrow> string" where
  "hex_byte b = [hex_digit (unat b div 16), hex_digit (unat b mod 16)]"

definition bytes_hex :: "8 word list \<Rightarrow> string" where
  "bytes_hex bs = concat (map hex_byte bs)"

definition upper_char :: "char \<Rightarrow> char" where
  "upper_char c =
     (let n = (of_char c :: nat) in if 97 \<le> n \<and> n \<le> 122 then char_of (n - 32) else c)"

definition upper :: "string \<Rightarrow> string" where
  "upper s = map upper_char s"

definition hex_val :: "char \<Rightarrow> nat option" where
  "hex_val c =
     (let n = (of_char c :: nat) in
      if 48 \<le> n \<and> n \<le> 57 then Some (n - 48)
      else if 97 \<le> n \<and> n \<le> 102 then Some (n - 87)
      else if 65 \<le> n \<and> n \<le> 70 then Some (n - 55)
      else None)"

definition is_space :: "char \<Rightarrow> bool" where
  "is_space c = ((of_char c :: nat) \<in> {9, 10, 11, 12, 13, 32})"

fun fromhex :: "string \<Rightarrow> 8 word list option" where
  "fromhex [] = Some []"
| "fromhex [c] = (if is_space c then Some [] else None)"
| "fromhex (c # d # rest) =
     (if is_space c then fromhex (d # rest)
      else (case (hex_val c, hex_val d) of
              (Some t, Some b) \<Rightarrow> map_option (\<lambda>bs. word_of_nat (16 * t + b) # bs) (fromhex rest)
            | _ \<Rightarrow> None))"

section \<open>The session (scanner.py, class ScannerApp)\<close>

text \<open>
  The radio-module client \<open>self.lib\<close> is external. Each call the session makes on it
  is recorded, in order, in \<open>lib_calls\<close>; the fixed library constants passed along
  (PHY and discovery-mode selectors) are left out of the record of the call. With each call
  the device collection as it is at the moment of the call is recorded in
  \<open>call_states\<close>, so that the order of the calls and the mutations inside a handler
  is part of the state: a call made before a mutation records the collection without it, a
  call made after it records the collection with it. Nothing reads \<open>call_states\<close>.
\<close>

datatype command =
    Reboot
  | ScannerStart
  | ConnectionOpen string "int option"
  | ConnectionClose int
  | DiscoverPrimaryServices int
  | DiscoverCharacteristics "int option" int
  | ReadCharacteristicValue "int option" int
  | WriteCharacteristicValue "int option" int "8 word list"
  | SetCharacteristicNotification "int option" int int
  | SendCharacteristicConfirmation int

record ScannerApp =
  devices :: "Device list"
  is_running :: bool
  is_ready :: bool
  lib_calls :: "command list"
  call_states :: "Device list list"

text \<open>The state after \<open>__init__\<close>: no devices, both flags clear, nothing sent.\<close>

definition ScannerApp_init :: ScannerApp where
  "ScannerApp_init =
     \<lparr>devices = [], is_running = False, is_ready = False, lib_calls = [], call_states = []\<rparr>"

definition call :: "command \<Rightarrow> ScannerApp \<Rightarrow> ScannerApp" where
  "call c app =
     app\<lparr>lib_calls := lib_calls app @ [c], call_states := call_states app @ [devices app]\<rparr>"

text \<open>
  The lookups return the first device that matches. The Python returns the object, which
  the caller then mutates in place; here the reference is the device's position in
  \<open>self.devices\<close> (devices are only ever appended, so positions are stable).
\<close>

definition get_device_by_address :: "Device list \<Rightarrow> string \<Rightarrow> nat option" where
  "get_device_by_address ds a = find_index (\<lambda>d. address d = a) ds"

definition get_device_by_handle :: "Device list \<Rightarrow> int \<Rightarrow> nat option" where
  "get_device_by_handle ds h = find_index (\<lambda>d. handle d = Some h) ds"

definition modify_device :: "nat \<Rightarrow> (Device \<Rightarrow> Device) \<Rightarrow> ScannerApp \<Rightarrow> ScannerApp" where
  "modify_device i f app = app\<lparr>devices := (devices app)[i := f (devices app ! i)]\<rparr>"

definition stop :: "ScannerApp \<Rightarrow> ScannerApp" where
  "stop app = app\<lparr>is_running := False\<rparr>"

definition reboot :: "ScannerApp \<Rightarrow> ScannerApp" where
  "reboot app = call Reboot app"

subsection \<open>Event handlers\<close>

definition on_advertisement ::
  "ScannerApp \<Rightarrow> string \<Rightarrow> 8 word list \<Rightarrow> int \<Rightarrow> int \<Rightarrow> int \<Rightarrow> ScannerApp" where
  "on_advertisement app ev_address ev_data ev_flags ev_address_type ev_rssi =
     (let a = upper ev_address; pkt = upper (bytes_hex ev_data) in
      case get_device_by_address (devices app) a of
        None \<Rightarrow>
          app\<lparr>devices := devices app @
                [device_on_advertisement (Device_init a) pkt ev_flags ev_address_type ev_rssi]\<rparr>
      | Some i \<Rightarrow>
          modify_device i
            (\<lambda>d. device_on_advertisement d pkt ev_flags ev_address_type ev_rssi) app)"

definition on_boot :: "ScannerApp \<Rightarrow> ScannerApp" where
  "on_boot app = call ScannerStart (app\<lparr>is_ready := True\<rparr>)"

definition on_connection_opened :: "ScannerApp \<Rightarrow> string \<Rightarrow> int \<Rightarrow> ScannerApp" where
  "on_connection_opened app ev_address ev_connection =
     (case get_device_by_address (devices app) (upper ev_address) of
        None \<Rightarrow> app
      | Some i \<Rightarrow>
          call (DiscoverPrimaryServices ev_connection)
            (modify_device i (\<lambda>d. d\<lparr>is_connected := True\<rparr>) app))"

definition on_connection_closed :: "ScannerApp \<Rightarrow> int \<Rightarrow> ScannerApp" where
  "on_connection_closed app ev_connection =
     (case get_device_by_handle (devices app) ev_connection of
        None \<Rightarrow> app
      | Some i \<Rightarrow> modify_device i (\<lambda>d. d\<lparr>is_connected := False, handle := None\<rparr>) app)"

text \<open>
  \<open>on_characteristic_value\<close> is two statements in sequence: the acknowledgement of an
  indication, then the lookup and the store. The indication opcode is a constant of the
  external library and is a parameter here.
\<close>

definition acknowledge_indication :: "int \<Rightarrow> ScannerApp \<Rightarrow> int \<Rightarrow> int \<Rightarrow> ScannerApp" where
  "acknowledge_indication indication_opcode app ev_connection ev_att_opcode =
     (if ev_att_opcode = indication_opcode
      then call (SendCharacteristicConfirmation ev_connection) app else app)"

definition set_characteristic ::
  "nat \<times> nat \<Rightarrow> (Characteristic \<Rightarrow> Characteristic) \<Rightarrow> Service list \<Rightarrow> Service list" where
  "set_characteristic p f ss =
     (case p of (i, j) \<Rightarrow>
        ss[i := (ss ! i)\<lparr>characteristics :=
                 (characteristics (ss ! i))[j := f (characteristics (ss ! i) ! j)]\<rparr>])"

definition store_characteristic_value ::
  "ScannerApp \<Rightarrow> int \<Rightarrow> int \<Rightarrow> 8 word list \<Rightarrow> ScannerApp" where
  "store_characteristic_value app ev_connection ev_characteristic ev_value =
     (case get_device_by_handle (devices app) ev_connection of
        None \<Rightarrow> app
      | Some i \<Rightarrow>
          (case get_characteristic_by_handle (services (devices app ! i)) ev_characteristic of
             None \<Rightarrow> app
           | Some p \<Rightarrow>
               modify_device i
                 (\<lambda>d. d\<lparr>services :=
                    set_characteristic p (\<lambda>c. c\<lparr>c_packet := bytes_hex ev_value\<rparr>) (services d)\<rparr>)
                 app))"

definition on_characteristic_value ::
  "int \<Rightarrow> ScannerApp \<Rightarrow> int \<Rightarrow> int \<Rightarrow> int \<Rightarrow> 8 word list \<Rightarrow> ScannerApp" where
  "on_characteristic_value indication_opcode app ev_connection ev_characteristic
       ev_att_opcode ev_value =
     store_characteristic_value
       (acknowledge_indication indication_opcode app ev_connection ev_att_opcode)
       ev_connection ev_characteristic ev_value"

definition on_service :: "ScannerApp \<Rightarrow> int \<Rightarrow> 8 word list \<Rightarrow> int \<Rightarrow> ScannerApp" where
  "on_service app ev_connection ev_uuid ev_service =
     (case get_device_by_handle (devices app) ev_connection of
        None \<Rightarrow> app
      | Some i \<Rightarrow>
          modify_device i
            (\<lambda>d. d\<lparr>services := services d @
                    [Service_init (upper (bytes_hex (rev ev_uuid))) ev_service]\<rparr>)
            app)"

text \<open>The loop of \<open>on_characteristic\<close>: append to the first service still DISCOVERING.\<close>

fun append_to_discovering :: "Characteristic \<Rightarrow> Service list \<Rightarrow> Service list" where
  "append_to_discovering c [] = []"
| "append_to_discovering c (s # ss) =
     (if s_state s = DISCOVERING
      then s\<lparr>characteristics := characteristics s @ [c]\<rparr> # ss
      else s # append_to_discovering c ss)"

definition on_characteristic ::
  "ScannerApp \<Rightarrow> int \<Rightarrow> 8 word list \<Rightarrow> int \<Rightarrow> int \<Rightarrow> ScannerApp" where
  "on_characteristic app ev_connection ev_uuid ev_characteristic ev_properties =
     (case get_device_by_handle (devices app) ev_connection of
        None \<Rightarrow> app
      | Some i \<Rightarrow>
          modify_device i
            (\<lambda>d. d\<lparr>services :=
               append_to_discovering
                 (Characteristic_init (upper (bytes_hex (rev ev_uuid)))
                    ev_characteristic ev_properties)
                 (services d)\<rparr>)
            app)"

text \<open>
  The nested function \<open>update_services_and_characteristics\<close>. The inner loop over the
  characteristics of one service returns the updated list when it found a characteristic
  that is not NONE (the Python returns from the whole function there), and \<open>None\<close>
  when it ran to its end (the outer loop goes on with the next service).
\<close>

fun reset_first_active :: "Characteristic list \<Rightarrow> Characteristic list option" where
  "reset_first_active [] = None"
| "reset_first_active (c # cs) =
     (if c_state c \<noteq> NONE then Some (c\<lparr>c_state := NONE\<rparr> # cs)
      else map_option (\<lambda>cs'. c # cs') (reset_first_active cs))"

fun update_services_and_characteristics :: "Service list \<Rightarrow> Service list" where
  "update_services_and_characteristics [] = []"
| "update_services_and_characteristics (s # ss) =
     (if s_state s \<noteq> DISCOVERED then s\<lparr>s_state := DISCOVERED\<rparr> # ss
      else (case reset_first_active (characteristics s) of
              Some cs' \<Rightarrow> s\<lparr>characteristics := cs'\<rparr> # ss
            | None \<Rightarrow> s # update_services_and_characteristics ss))"

definition on_procedure_completed :: "ScannerApp \<Rightarrow> int \<Rightarrow> ScannerApp" where
  "on_procedure_completed app ev_connection =
     (case get_device_by_handle (devices app) ev_connection of
        None \<Rightarrow> app
      | Some i \<Rightarrow>
          (let app' = modify_device i
                 (\<lambda>d. d\<lparr>services := update_services_and_characteristics (services d)\<rparr>) app;
               d' = devices app' ! i
           in case find (\<lambda>s. s_state s = DISCOVERING) (services d') of
                Some s \<Rightarrow> call (DiscoverCharacteristics (handle d') (s_handle s)) app'
              | None \<Rightarrow> app'))"

subsection \<open>Public operations\<close>

text \<open>
  The operations receive the objects they act on. A device is referred to by its position
  in \<open>self.devices\<close>, a characteristic by the position of its device, of its service in
  that device and of itself in that service; the characteristic handed to an operation
  need not belong to the device handed to it, as in the Python. The connection handle of
  the synchronous response to \<open>connection.open\<close> is an input.
\<close>

type_synonym characteristic_ref = "nat \<times> nat \<times> nat"

definition get_characteristic :: "ScannerApp \<Rightarrow> characteristic_ref \<Rightarrow> Characteristic" where
  "get_characteristic app r =
     (case r of (k, i, j) \<Rightarrow> characteristics (services (devices app ! k) ! i) ! j)"

definition modify_characteristic ::
  "characteristic_ref \<Rightarrow> (Characteristic \<Rightarrow> Characteristic) \<Rightarrow> ScannerApp \<Rightarrow> ScannerApp" where
  "modify_characteristic r f app =
     (case r of (k, p) \<Rightarrow>
        modify_device k (\<lambda>d. d\<lparr>services := set_characteristic p f (services d)\<rparr>) app)"

definition valid_ref :: "ScannerApp \<Rightarrow> characteristic_ref \<Rightarrow> bool" where
  "valid_ref app r =
     (case r of (k, i, j) \<Rightarrow>
        k < length (devices app) \<and> i < length (services (devices app ! k)) \<and>
        j < length (characteristics (services (devices app ! k) ! i)))"

definition connect_device :: "ScannerApp \<Rightarrow> nat \<Rightarrow> int \<Rightarrow> ScannerApp" where
  "connect_device app dev response_connection =
     (if list_ex (\<lambda>d. handle d \<noteq> None \<and> \<not> is_connected d) (devices app) then app
      else modify_device dev (\<lambda>d. d\<lparr>handle := Some response_connection\<rparr>)
             (call (ConnectionOpen (address (devices app ! dev))
                      (address_type (devices app ! dev))) app))"

definition disconnect_device :: "ScannerApp \<Rightarrow> nat \<Rightarrow> ScannerApp" where
  "disconnect_device app dev =
     (case handle (devices app ! dev) of
        Some h \<Rightarrow> call (ConnectionClose h) app
      | None \<Rightarrow> app)"

definition read_from_characteristic :: "ScannerApp \<Rightarrow> nat \<Rightarrow> characteristic_ref \<Rightarrow> ScannerApp" where
  "read_from_characteristic app dev ch =
     (let d = devices app ! dev in
      if is_using_gatt_command d then app
      else if is_connected d then
        modify_characteristic ch (\<lambda>c. c\<lparr>c_state := READING\<rparr>)
          (call (ReadCharacteristicValue (handle d) (c_handle (get_characteristic app ch))) app)
      else app)"

text \<open>
  \<open>bytes.fromhex(packet)\<close> is evaluated as an argument of the library call: when it
  raises, nothing has been sent and nothing has been changed.
\<close>

datatype error = ValueError

definition write_to_characteristic ::
  "ScannerApp \<Rightarrow> nat \<Rightarrow> characteristic_ref \<Rightarrow> string \<Rightarrow> error + ScannerApp" where
  "write_to_characteristic app dev ch pkt =
     (let d = devices app ! dev in
      if is_using_gatt_command d then Inr app
      else if is_connected d then
        (case fromhex pkt of
           None \<Rightarrow> Inl ValueError
         | Some bs \<Rightarrow>
             Inr (modify_characteristic ch (\<lambda>c. c\<lparr>c_state := WRITING, c_packet := pkt\<rparr>)
                    (call (WriteCharacteristicValue (handle d)
                             (c_handle (get_characteristic app ch)) bs) app)))
      else Inr app)"

definition subscribe_to_notification ::
  "ScannerApp \<Rightarrow> nat \<Rightarrow> characteristic_ref \<Rightarrow> ScannerApp" where
  "subscribe_to_notification app dev ch =
     (let d = devices app ! dev in
      if is_using_gatt_command d then app
      else if is_connected d then
        modify_characteristic ch (\<lambda>c. c\<lparr>c_state := SUBSCRIBING_NOTIFICATION\<rparr>)
          (call (SetCharacteristicNotification (handle d)
                   (c_handle (get_characteristic app ch)) 1) app)
      else app)"

definition subscribe_to_indication ::
  "ScannerApp \<Rightarrow> nat \<Rightarrow> characteristic_ref \<Rightarrow> ScannerApp" where
  "subscribe_to_indication app dev ch =
     (let d = devices app ! dev in
      if is_using_gatt_command d then app
      else if is_connected d then
        modify_characteristic ch (\<lambda>c. c\<lparr>c_state := SUBSCRIBING_INDICATION\<rparr>)
          (call (SetCharacteristicNotification (handle d)
                   (c_handle (get_characteristic app ch)) 2) app)
      else app)"

subsection \<open>The event loop\<close>

text \<open>
  The events the loop of \<open>run\<close> dispatches on, with the attributes the handlers read;
  \<open>other_event\<close> stands for every event no \<open>case\<close> of the \<open>match\<close> names.
\<close>

datatype event =
    bt_evt_scanner_legacy_advertisement_report string "8 word list" int int int
  | bt_evt_system_boot
  | bt_evt_connection_opened string int
  | bt_evt_connection_closed int
  | bt_evt_gatt_service int "8 word list" int
  | bt_evt_gatt_characteristic int "8 word list" int int
  | bt_evt_gatt_characteristic_value int int int "8 word list"
  | bt_evt_gatt_procedure_completed int
  | other_event

text \<open>One pass through the loop body for an event that \<open>get_event\<close> delivered.\<close>

definition handle_event :: "int \<Rightarrow> ScannerApp \<Rightarrow> event \<Rightarrow> ScannerApp" where
  "handle_event indication_opcode app ev =
     (if \<not> (is_ready app \<or> ev = bt_evt_system_boot) then app
      else (case ev of
              bt_evt_scanner_legacy_advertisement_report a dat fl at r \<Rightarrow>
                on_advertisement app a dat fl at r
            | bt_evt_system_boot \<Rightarrow> on_boot app
            | bt_evt_connection_opened a c \<Rightarrow> on_connection_opened app a c
            | bt_evt_connection_closed c \<Rightarrow> on_connection_closed app c
            | bt_evt_gatt_service c u s \<Rightarrow> on_service app c u s
            | bt_evt_gatt_characteristic c u ch p \<Rightarrow> on_characteristic app c u ch p
            | bt_evt_gatt_characteristic_value c ch opc v \<Rightarrow>
                on_characteristic_value indication_opcode app c ch opc v
            | bt_evt_gatt_procedure_completed c \<Rightarrow> on_procedure_completed app c
            | other_event \<Rightarrow> app))"

text \<open>The \<open>while\<close> loop over the events that arrive, in their order of arrival.\<close>

fun run_events :: "int \<Rightarrow> ScannerApp \<Rightarrow> event list \<Rightarrow> ScannerApp" where
  "run_events indication_opcode app [] = app"
| "run_events indication_opcode app (ev # evs) =
     (if is_running app
      then run_events indication_opcode (handle_event indication_opcode app ev) evs
      else app)"

subsection \<open>The watchdog\<close>

text \<open>
  \<open>self.is_ready.wait(t)\<close> blocks for at most \<open>t\<close> seconds and returns whether the flag
  was set. The flag is set by the event loop, in another thread; the outcome of the
  \<open>k\<close>-th call of \<open>wait\<close> (counted from 0, the initial grace wait) is the input
  \<open>ready_wait k\<close>.
\<close>

definition MAX_RETRY_ATTEMPTS :: nat where
  "MAX_RETRY_ATTEMPTS = 3"

function watchdog_loop :: "(nat \<Rightarrow> bool) \<Rightarrow> nat \<Rightarrow> ScannerApp \<Rightarrow> ScannerApp" where
  "watchdog_loop ready_wait retry app =
     (if retry < MAX_RETRY_ATTEMPTS
      then (let app' = reboot app; retry' = retry + 1
            in if ready_wait retry' then app' else watchdog_loop ready_wait retry' app')
      else stop app)"
  by pat_completeness auto
termination
  by (relation "measure (\<lambda>(ready_wait, retry, app). MAX_RETRY_ATTEMPTS - retry)") auto

declare watchdog_loop.simps [simp del]

definition watchdog :: "(nat \<Rightarrow> bool) \<Rightarrow> ScannerApp \<Rightarrow> ScannerApp" where
  "watchdog ready_wait app =
     (if ready_wait 0 then app else watchdog_loop ready_wait 0 app)"

section \<open>Derived notions and example states\<close>

text \<open>
  The states the unit tests build: one device with the address of the tests, holding
  connection handle 1.
\<close>

definition test_device :: Device where
  "test_device = (Device_init ''00:11:22:33:44:55'')\<lparr>handle := Some 1\<rparr>"

definition test_app :: ScannerApp where
  "test_app = ScannerApp_init\<lparr>devices := [test_device]\<rparr>"

text \<open>
  A characteristic is idle when no command is outstanding on it; a service is idle when
  it is DISCOVERED and all its characteristics are idle. A device is busy
  (\<open>is_using_gatt_command\<close>) exactly when one of its services is not idle.
\<close>

definition idle_characteristic :: "Characteristic \<Rightarrow> bool" where
  "idle_characteristic c = (c_state c = NONE)"

definition idle_service :: "Service \<Rightarrow> bool" where
  "idle_service s =
     (s_state s = DISCOVERED \<and> list_all idle_characteristic (characteristics s))"

definition test_app_with :: "Service list \<Rightarrow> ScannerApp" where
  "test_app_with ss =
     ScannerApp_init\<lparr>devices := [test_device\<lparr>is_connected := True, services := ss\<rparr>]\<rparr>"

definition reading_characteristic :: Characteristic where
  "reading_characteristic = (Characteristic_init ''ABCD'' 3 2)\<lparr>c_state := READING\<rparr>"

definition discovered_service :: "string \<Rightarrow> int \<Rightarrow> Characteristic list \<Rightarrow> Service" where
  "discovered_service u h cs =
     (Service_init u h)\<lparr>s_state := DISCOVERED, characteristics := cs\<rparr>"

definition stale_read_app :: ScannerApp where
  "stale_read_app =
     test_app_with [discovered_service ''0000'' 1 [reading_characteristic],
                    Service_init ''0001'' 2]"

text \<open>
  A first session of one device, from start-up to the loss of the connection: boot,
  advertisement, connect, connection opened, two services discovered, the characteristic
  of the second one discovered, connection closed. Then the reconnection: connect again
  and the connection-opened event.
\<close>

definition first_session :: ScannerApp where
  "first_session =
     (let a = ''00:11:22:33:44:55'';
          s = on_boot ScannerApp_init;
          s = on_advertisement s a [0x12, 0x34] 1 1 (- 100);
          s = connect_device s 0 1;
          s = on_connection_opened s a 1;
          s = on_service s 1 [0x00, 0x18] 1;
          s = on_service s 1 [0x0A, 0x18] 2;
          s = on_procedure_completed s 1;
          s = on_characteristic s 1 [0x29, 0x2A] 3 2;
          s = on_procedure_completed s 1
      in on_connection_closed s 1)"

definition reconnected :: ScannerApp where
  "reconnected =
     on_connection_opened (connect_device first_session 0 2) ''00:11:22:33:44:55'' 2"

text \<open>
  The states of the unit tests of the GATT commands: the connected device with one
  DISCOVERED service holding one idle characteristic (handle 2), and the same device with
  a service that is still DISCOVERING.
\<close>

definition idle_app :: ScannerApp where
  "idle_app = test_app_with [discovered_service ''0000'' 1 [Characteristic_init ''0001'' 2 8]]"

definition discovering_app :: ScannerApp where
  "discovering_app = test_app_with [Service_init ''0000'' 1]"


text \<open>
  The command-states of all characteristics of all devices, in order, and the state of
  the unit test of the value event with the characteristic waiting for its subscription.
\<close>

definition command_states :: "Device list \<Rightarrow> CharacteristicState list list list" where
  "command_states ds = map (\<lambda>d. map (\<lambda>s. map c_state (characteristics s)) (services d)) ds"

definition indicating_app :: ScannerApp where
  "indicating_app =
     test_app_with [discovered_service ''0000'' 1
       [(Characteristic_init ''0001'' 2 32)\<lparr>c_state := SUBSCRIBING_INDICATION\<rparr>]]"

text \<open>
  A device is connecting when it holds a connection handle and is not connected: a
  connection attempt for it is in flight. This is the condition \<open>connect_device\<close>
  tests on every device.
\<close>

definition connecting :: "Device \<Rightarrow> bool" where
  "connecting d = (handle d \<noteq> None \<and> \<not> is_connected d)"

text \<open>
  The session is driven by the events the loop of \<open>run\<close> handles and by the public
  operations the presentation layer invokes; each is carried out as a whole. A write whose
  payload \<open>bytes.fromhex\<close> rejects raises in the caller and leaves the state as it was.
\<close>

datatype action =
    Event event
  | Connect nat int
  | Disconnect nat
  | Read nat characteristic_ref
  | Write nat characteristic_ref string
  | SubscribeNotification nat characteristic_ref
  | SubscribeIndication nat characteristic_ref

definition perform :: "int \<Rightarrow> ScannerApp \<Rightarrow> action \<Rightarrow> ScannerApp" where
  "perform indication_opcode app act =
     (case act of
        Event ev \<Rightarrow> handle_event indication_opcode app ev
      | Connect dev response_connection \<Rightarrow> connect_device app dev response_connection
      | Disconnect dev \<Rightarrow> disconnect_device app dev
      | Read dev ch \<Rightarrow> read_from_characteristic app dev ch
      | Write dev ch pkt \<Rightarrow>
          (case write_to_characteristic app dev ch pkt of Inl e \<Rightarrow> app | Inr app' \<Rightarrow> app')
      | SubscribeNotification dev ch \<Rightarrow> subscribe_to_notification app dev ch
      | SubscribeIndication dev ch \<Rightarrow> subscribe_to_indication app dev ch)"

text \<open>
  Two devices, the first with a connection attempt in flight, the second without a handle.
\<close>

definition two_devices_app :: ScannerApp where
  "two_devices_app =
     ScannerApp_init\<lparr>devices := [test_device, Device_init ''66:77:88:99:AA:BB'']\<rparr>"

section \<open>Auxiliary lemmas\<close>

lemma find_index_Some:
  "find_index P xs = Some i \<Longrightarrow> i < length xs \<and> P (xs ! i)"
proof (induction xs arbitrary: i)
  case Nil
  then show ?case by simp
next
  case (Cons x xs)
  show ?case
  proof (cases "P x")
    case True
    with Cons.prems show ?thesis by simp
  next
    case False
    with Cons.prems obtain k where k: "find_index P xs = Some k" "i = Suc k"
      by auto
    from Cons.IH [OF k(1)] k(2) show ?thesis by simp
  qed
qed

lemma find_index_first:
  "find_index P xs = Some i \<Longrightarrow> j < i \<Longrightarrow> \<not> P (xs ! j)"
proof (induction xs arbitrary: i j)
  case Nil
  then show ?case by simp
next
  case (Cons x xs)
  show ?case
  proof (cases "P x")
    case True
    with Cons.prems show ?thesis by simp
  next
    case False
    with Cons.prems obtain k where k: "find_index P xs = Some k" "i = Suc k"
      by auto
    show ?thesis
    proof (cases j)
      case 0
      with False show ?thesis by simp
    next
      case (Suc m)
      with Cons.prems(2) k(2) have "m < k" by simp
      from Cons.IH [OF k(1) this] Suc show ?thesis by simp
    qed
  qed
qed

lemma find_index_None: "find_index P xs = None \<longleftrightarrow> (\<forall>x\<in>set xs. \<not> P x)"
  by (induction xs) auto

lemma get_device_by_handle_bound:
  "get_device_by_handle ds h = Some i \<Longrightarrow> i < length ds"
  by (simp add: get_device_by_handle_def find_index_Some)

lemma get_device_by_address_bound:
  "get_device_by_address ds a = Some i \<Longrightarrow> i < length ds"
  by (simp add: get_device_by_address_def find_index_Some)

lemma handle_event_not_ready:
  "\<not> is_ready app \<Longrightarrow> ev \<noteq> bt_evt_system_boot \<Longrightarrow> handle_event ind app ev = app"
  by (simp add: handle_event_def)

lemma watchdog_loop_step:
  "watchdog_loop ready_wait retry app =
     (if retry < 3
      then (if ready_wait (Suc retry) then reboot app
            else watchdog_loop ready_wait (Suc retry) (reboot app))
      else stop app)"
  by (subst watchdog_loop.simps) (simp add: MAX_RETRY_ATTEMPTS_def Let_def)

lemma watchdog_unrolled:
  "watchdog ready_wait app =
     (if ready_wait 0 then app
      else if ready_wait 1 then reboot app
      else if ready_wait 2 then reboot (reboot app)
      else if ready_wait 3 then reboot (reboot (reboot app))
      else stop (reboot (reboot (reboot app))))"
proof -
  have l3: "watchdog_loop ready_wait (Suc (Suc (Suc 0))) a = stop a" for a
    by (subst watchdog_loop_step) simp
  have l2: "watchdog_loop ready_wait (Suc (Suc 0)) a =
      (if ready_wait (Suc (Suc (Suc 0))) then reboot a else stop (reboot a))" for a
    by (subst watchdog_loop_step) (simp add: l3)
  have l1: "watchdog_loop ready_wait (Suc 0) a =
      (if ready_wait (Suc (Suc 0)) then reboot a
       else if ready_wait (Suc (Suc (Suc 0))) then reboot (reboot a)
       else stop (reboot (reboot a)))" for a
    by (subst watchdog_loop_step) (simp add: l2)
  have l0: "watchdog_loop ready_wait 0 a =
      (if ready_wait (Suc 0) then reboot a
       else if ready_wait (Suc (Suc 0)) then reboot (reboot a)
       else if ready_wait (Suc (Suc (Suc 0))) then reboot (reboot (reboot a))
       else stop (reboot (reboot (reboot a))))" for a
    by (subst watchdog_loop_step) (simp add: l1)
  show ?thesis
    unfolding watchdog_def l0 by (simp add: numeral_2_eq_2 numeral_3_eq_3)
qed


lemma find_index_map: "find_index P xs = find_index (\<lambda>b. b) (map P xs)"
  by (induction xs) simp_all

lemma get_device_by_handle_update:
  assumes "k < length ds" and "handle d' = handle (ds ! k)"
  shows "get_device_by_handle (ds[k := d']) h = get_device_by_handle ds h"
proof -
  have "map (\<lambda>d. handle d = Some h) (ds[k := d']) = map (\<lambda>d. handle d = Some h) ds"
    using assms by (simp add: map_update list_update_same_conv)
  then show ?thesis
    unfolding get_device_by_handle_def
    by (metis find_index_map)
qed

lemma reset_first_active_idle:
  "list_all idle_characteristic cs \<Longrightarrow> reset_first_active cs = None"
  by (induction cs) (simp_all add: idle_characteristic_def)

lemma reset_first_active_first:
  "list_all idle_characteristic cpre \<Longrightarrow> c_state c \<noteq> NONE \<Longrightarrow>
   reset_first_active (cpre @ c # cpost) = Some (cpre @ c\<lparr>c_state := NONE\<rparr> # cpost)"
  by (induction cpre) (simp_all add: idle_characteristic_def)

lemma update_marks_first_undiscovered:
  "list_all idle_service pre \<Longrightarrow> s_state s \<noteq> DISCOVERED \<Longrightarrow>
   update_services_and_characteristics (pre @ s # post) =
     pre @ s\<lparr>s_state := DISCOVERED\<rparr> # post"
  by (induction pre) (simp_all add: idle_service_def reset_first_active_idle)

lemma update_resets_first_active:
  "list_all idle_service pre \<Longrightarrow> s_state s = DISCOVERED \<Longrightarrow>
   reset_first_active (characteristics s) = Some cs' \<Longrightarrow>
   update_services_and_characteristics (pre @ s # post) =
     pre @ s\<lparr>characteristics := cs'\<rparr> # post"
  by (induction pre) (simp_all add: idle_service_def reset_first_active_idle)

lemma update_all_idle:
  "list_all idle_service ss \<Longrightarrow> update_services_and_characteristics ss = ss"
  by (induction ss) (simp_all add: idle_service_def reset_first_active_idle)

lemma on_procedure_completed_devices:
  assumes "get_device_by_handle (devices app) conn = Some i"
  shows "devices (on_procedure_completed app conn) =
     (devices app)[i := (devices app ! i)\<lparr>services :=
        update_services_and_characteristics (services (devices app ! i))\<rparr>]"
  using assms
  by (simp add: on_procedure_completed_def modify_device_def call_def Let_def
      split: option.split)

lemma on_procedure_completed_services:
  assumes "get_device_by_handle (devices app) conn = Some i"
  shows "services (devices (on_procedure_completed app conn) ! i) =
        update_services_and_characteristics (services (devices app ! i))"
  using assms get_device_by_handle_bound [OF assms]
  by (simp add: on_procedure_completed_devices)

lemma not_busy_iff:
  "\<not> is_using_gatt_command d \<longleftrightarrow> list_all idle_service (services d)"
  by (auto simp: is_using_gatt_command_def idle_service_def idle_characteristic_def
      list_ex_iff list_all_iff)

lemma update_after_set_characteristic:
  assumes idle: "list_all idle_service ss"
    and i: "i < length ss" and j: "j < length (characteristics (ss ! i))"
    and act: "c_state (f (characteristics (ss ! i) ! j)) \<noteq> NONE"
  shows "update_services_and_characteristics (set_characteristic (i, j) f ss) =
         set_characteristic (i, j) (\<lambda>c. (f c)\<lparr>c_state := NONE\<rparr>) ss"
proof -
  let ?s = "ss ! i"
  let ?cs = "characteristics ?s"
  from idle i have si: "idle_service ?s"
    by (simp add: list_all_length)
  then have disc: "s_state ?s = DISCOVERED" and cidle: "list_all idle_characteristic ?cs"
    by (simp_all add: idle_service_def)
  from idle have pre: "list_all idle_service (take i ss)"
    by (auto simp: list_all_iff dest: in_set_takeD)
  from cidle have cpre: "list_all idle_characteristic (take j ?cs)"
    by (auto simp: list_all_iff dest: in_set_takeD)
  have r: "reset_first_active (?cs[j := f (?cs ! j)]) =
      Some (?cs[j := (f (?cs ! j))\<lparr>c_state := NONE\<rparr>])"
    using reset_first_active_first [OF cpre act, of "drop (Suc j) ?cs"] j
    by (simp add: upd_conv_take_nth_drop)
  let ?s' = "?s\<lparr>characteristics := ?cs[j := f (?cs ! j)]\<rparr>"
  have "update_services_and_characteristics (take i ss @ ?s' # drop (Suc i) ss) =
        take i ss @ ?s'\<lparr>characteristics := ?cs[j := (f (?cs ! j))\<lparr>c_state := NONE\<rparr>]\<rparr>
          # drop (Suc i) ss"
    by (rule update_resets_first_active [OF pre]) (simp_all add: disc r)
  then show ?thesis
    using i by (simp add: set_characteristic_def upd_conv_take_nth_drop)
qed

lemma devices_call [simp]: "devices (call c app) = devices app"
  by (simp add: call_def)

lemma lib_calls_call [simp]: "lib_calls (call c app) = lib_calls app @ [c]"
  by (simp add: call_def)

lemma call_states_call [simp]:
  "call_states (call c app) = call_states app @ [devices app]"
  by (simp add: call_def)

lemma call_states_modify_device [simp]:
  "call_states (modify_device k f app) = call_states app"
  by (simp add: modify_device_def)

lemma call_states_store_characteristic_value:
  "call_states (store_characteristic_value app conn ch v) = call_states app"
  by (simp add: store_characteristic_value_def split: option.split)

lemma lib_calls_modify_device [simp]: "lib_calls (modify_device k f app) = lib_calls app"
  by (simp add: modify_device_def)

lemma lib_calls_modify_characteristic [simp]:
  "lib_calls (modify_characteristic r f app) = lib_calls app"
  by (cases r) (simp add: modify_characteristic_def)

lemma set_characteristic_nth:
  "i < length ss \<Longrightarrow> j < length (characteristics (ss ! i)) \<Longrightarrow>
   characteristics (set_characteristic (i, j) f ss ! i) ! j = f (characteristics (ss ! i) ! j)"
  by (simp add: set_characteristic_def)

lemma devices_modify_characteristic:
  "devices (modify_characteristic (k, i, j) f app) =
     (devices app)[k := (devices app ! k)\<lparr>services :=
        set_characteristic (i, j) f (services (devices app ! k))\<rparr>]"
  by (simp add: modify_characteristic_def modify_device_def)

lemma get_modify_characteristic:
  assumes "valid_ref app r" and "devices app' = devices app"
  shows "get_characteristic (modify_characteristic r f app') r = f (get_characteristic app r)"
proof -
  obtain k i j where r: "r = (k, i, j)" by (cases r)
  with assms(1) have k: "k < length (devices app)"
    and i: "i < length (services (devices app ! k))"
    and j: "j < length (characteristics (services (devices app ! k) ! i))"
    by (simp_all add: valid_ref_def)
  show ?thesis
    unfolding r get_characteristic_def devices_modify_characteristic assms(2)
    using k by (simp add: set_characteristic_nth [OF i j])
qed

lemma idle_app_facts:
  "0 < length (devices idle_app)"
  "is_connected (devices idle_app ! 0)"
  "\<not> is_using_gatt_command (devices idle_app ! 0)"
  "0 < length (services (devices idle_app ! 0))"
  "0 < length (characteristics (services (devices idle_app ! 0) ! 0))"
  "get_device_by_handle (devices idle_app) 1 = Some 0"
  "valid_ref idle_app (0, 0, 0)"
  "lib_calls idle_app = []"
  "handle (devices idle_app ! 0) = Some 1"
  "get_characteristic idle_app (0, 0, 0) = Characteristic_init ''0001'' 2 8"
  by (simp_all add: idle_app_def test_app_with_def test_device_def Device_init_def
      ScannerApp_init_def discovered_service_def Service_init_def Characteristic_init_def
      is_using_gatt_command_def get_device_by_handle_def valid_ref_def
      get_characteristic_def)


lemma map_update_same: "(map g xs)[a := g (xs ! a)] = map g xs"
  by (metis list_update_id map_update)

lemma get_characteristic_by_handle_bound:
  "get_characteristic_by_handle ss h = Some (a, b) \<Longrightarrow>
   a < length ss \<and> b < length (characteristics (ss ! a))"
proof (induction ss arbitrary: a)
  case Nil
  then show ?case by simp
next
  case (Cons s ss)
  show ?case
  proof (cases "find_index (\<lambda>c. c_handle c = h) (characteristics s)")
    case (Some j)
    with Cons.prems have "a = 0" "b = j" by simp_all
    with Some find_index_Some [OF Some] show ?thesis by simp
  next
    case None
    with Cons.prems obtain a' where
      "get_characteristic_by_handle ss h = Some (a', b)" "a = Suc a'"
      by auto
    with Cons.IH [of a'] show ?thesis by simp
  qed
qed

lemma set_characteristic_states:
  assumes "\<And>c. c_state (f c) = c_state c"
  shows "map (\<lambda>s. map c_state (characteristics s)) (set_characteristic p f ss) =
         map (\<lambda>s. map c_state (characteristics s)) ss"
proof -
  obtain a b where p: "p = (a, b)" by (cases p)
  have "map c_state ((characteristics (ss ! a))[b := f (characteristics (ss ! a) ! b)]) =
        map c_state (characteristics (ss ! a))"
    by (simp add: map_update assms map_update_same)
  then show ?thesis
    unfolding p set_characteristic_def
    by (simp add: map_update map_update_same [of "\<lambda>s. map c_state (characteristics s)"])
qed

lemma store_characteristic_value_states:
  "command_states (devices (store_characteristic_value app conn ch v)) =
   command_states (devices app)"
proof (cases "get_device_by_handle (devices app) conn")
  case None
  then show ?thesis by (simp add: store_characteristic_value_def)
next
  case (Some i)
  show ?thesis
  proof (cases "get_characteristic_by_handle (services (devices app ! i)) ch")
    case None
    with Some show ?thesis by (simp add: store_characteristic_value_def)
  next
    case (Some p)
    with \<open>get_device_by_handle (devices app) conn = Some i\<close> show ?thesis
      by (simp add: store_characteristic_value_def modify_device_def command_states_def
          map_update set_characteristic_states
          map_update_same [of "\<lambda>d. map (\<lambda>s. map c_state (characteristics s)) (services d)"])
  qed
qed

lemma lib_calls_store_characteristic_value:
  "lib_calls (store_characteristic_value app conn ch v) = lib_calls app"
  by (simp add: store_characteristic_value_def split: option.split)

lemma find_index_append_new:
  "find_index P xs = None \<Longrightarrow> P x \<Longrightarrow> find_index P (xs @ [x]) = Some (length xs)"
  by (induction xs) (simp_all split: if_splits)

lemma get_device_by_address_update:
  assumes "address d' = address (ds ! k)"
  shows "get_device_by_address (ds[k := d']) a = get_device_by_address ds a"
proof -
  have "map (\<lambda>d. address d = a) (ds[k := d']) = map (\<lambda>d. address d = a) ds"
    using assms by (simp add: map_update map_update_same [of "\<lambda>d. address d = a"])
  then show ?thesis
    unfolding get_device_by_address_def
    by (subst find_index_map, subst (2) find_index_map) simp
qed

lemma address_device_on_advertisement [simp]:
  "address (device_on_advertisement d p f t r) = address d"
  by (simp add: device_on_advertisement_def)

lemma on_advertisement_known:
  assumes "get_device_by_address (devices app) (upper a) = Some k"
  shows "devices (on_advertisement app a dat fl at r) =
     (devices app)[k := device_on_advertisement (devices app ! k) (upper (bytes_hex dat)) fl at r]"
  using assms by (simp add: on_advertisement_def modify_device_def Let_def)

lemma on_advertisement_new:
  assumes "get_device_by_address (devices app) (upper a) = None"
  shows "devices (on_advertisement app a dat fl at r) =
     devices app @ [device_on_advertisement (Device_init (upper a)) (upper (bytes_hex dat)) fl at r]"
  using assms by (simp add: on_advertisement_def Let_def)

lemma on_advertisement_resolves:
  "\<exists>k. get_device_by_address (devices (on_advertisement app a dat fl at r)) (upper a) = Some k"
proof (cases "get_device_by_address (devices app) (upper a)")
  case None
  then have "find_index (\<lambda>d. address d = upper a) (devices app) = None"
    by (simp add: get_device_by_address_def)
  from find_index_append_new [OF this, of
      "device_on_advertisement (Device_init (upper a)) (upper (bytes_hex dat)) fl at r"]
  show ?thesis
    unfolding on_advertisement_new [OF None] get_device_by_address_def
    by (simp add: Device_init_def)
next
  case (Some k)
  then show ?thesis
    unfolding on_advertisement_known [OF Some]
    by (simp add: get_device_by_address_update)
qed

lemma on_advertisement_distinct:
  assumes "distinct (map address (devices app))"
  shows "distinct (map address (devices (on_advertisement app a dat fl at r)))"
proof (cases "get_device_by_address (devices app) (upper a)")
  case None
  then have "\<forall>d\<in>set (devices app). address d \<noteq> upper a"
    by (simp add: get_device_by_address_def find_index_None)
  with assms show ?thesis
    unfolding on_advertisement_new [OF None]
    by (auto simp: Device_init_def)
next
  case (Some k)
  have "map address ((devices app)[k := device_on_advertisement (devices app ! k)
      (upper (bytes_hex dat)) fl at r]) = map address (devices app)"
    by (simp add: map_update map_update_same [of address])
  with assms show ?thesis
    unfolding on_advertisement_known [OF Some] by simp
qed

lemma distinct_key_unique:
  assumes "distinct (map f xs)" and "k < length xs"
  shows "length (filter (\<lambda>y. f y = f (xs ! k)) xs) = 1"
proof -
  have "length (filter (\<lambda>y. f y = f (xs ! k)) xs) =
      length (filter (\<lambda>v. v = f (xs ! k)) (map f xs))"
    by (simp add: filter_map comp_def)
  also have "\<dots> = card ({v. v = f (xs ! k)} \<inter> set (map f xs))"
    using assms(1) by (rule distinct_length_filter)
  also have "{v. v = f (xs ! k)} \<inter> set (map f xs) = {f (xs ! k)}"
    using assms(2) by auto
  finally show ?thesis by simp
qed

lemma filter_update_le:
  "(P y \<Longrightarrow> i < length xs \<Longrightarrow> P (xs ! i)) \<Longrightarrow>
   length (filter P (xs[i := y])) \<le> length (filter P xs)"
proof (induction xs arbitrary: i)
  case Nil
  then show ?case by simp
next
  case (Cons x xs)
  show ?case
  proof (cases i)
    case 0
    with Cons.prems show ?thesis by auto
  next
    case (Suc k)
    have "length (filter P (xs[k := y])) \<le> length (filter P xs)"
      by (rule Cons.IH) (use Cons.prems Suc in auto)
    with Suc show ?thesis by simp
  qed
qed

lemma filter_update_none:
  "\<not> list_ex P xs \<Longrightarrow> length (filter P (xs[i := y])) \<le> 1"
proof (induction xs arbitrary: i)
  case Nil
  then show ?case by simp
next
  case (Cons x xs)
  then have nx: "\<not> P x" and nxs: "\<not> list_ex P xs" by simp_all
  show ?case
  proof (cases i)
    case 0
    from nxs have "filter P xs = []"
      by (simp add: list_ex_iff filter_empty_conv)
    with 0 show ?thesis by simp
  next
    case (Suc k)
    with Cons.IH [OF nxs] nx show ?thesis by simp
  qed
qed

lemma modify_device_connecting:
  assumes "connecting (f (devices app ! i)) \<Longrightarrow> connecting (devices app ! i)"
  shows "length (filter connecting (devices (modify_device i f app))) \<le>
         length (filter connecting (devices app))"
  unfolding modify_device_def using assms by (simp add: filter_update_le)

lemma modify_characteristic_connecting:
  "length (filter connecting (devices (modify_characteristic r f app))) \<le>
   length (filter connecting (devices app))"
proof -
  obtain k p where r: "r = (k, p)" by (cases r)
  show ?thesis
    unfolding r modify_characteristic_def prod.case
    by (rule modify_device_connecting) (simp add: connecting_def)
qed

lemma handle_event_connecting:
  "length (filter connecting (devices (handle_event ind app ev))) \<le>
   length (filter connecting (devices app))"
proof -
  have adv: "length (filter connecting (devices (on_advertisement app a dat fl at r))) \<le>
      length (filter connecting (devices app))" for a dat fl at r
  proof (cases "get_device_by_address (devices app) (upper a)")
    case None
    then show ?thesis
      by (simp add: on_advertisement_new connecting_def device_on_advertisement_def
          Device_init_def)
  next
    case (Some k)
    have "length (filter connecting (devices (modify_device k
        (\<lambda>d. device_on_advertisement d (upper (bytes_hex dat)) fl at r) app))) \<le>
        length (filter connecting (devices app))"
      by (rule modify_device_connecting)
        (simp add: connecting_def device_on_advertisement_def)
    with Some show ?thesis
      by (simp add: on_advertisement_def Let_def)
  qed
  have opened: "length (filter connecting (devices (on_connection_opened app a c))) \<le>
      length (filter connecting (devices app))" for a c
  proof (cases "get_device_by_address (devices app) (upper a)")
    case None
    then show ?thesis by (simp add: on_connection_opened_def)
  next
    case (Some k)
    have "length (filter connecting (devices (modify_device k
        (\<lambda>d. d\<lparr>is_connected := True\<rparr>) app))) \<le> length (filter connecting (devices app))"
      by (rule modify_device_connecting) (simp add: connecting_def)
    with Some show ?thesis
      by (simp add: on_connection_opened_def)
  qed
  have closed: "length (filter connecting (devices (on_connection_closed app c))) \<le>
      length (filter connecting (devices app))" for c
  proof (cases "get_device_by_handle (devices app) c")
    case None
    then show ?thesis by (simp add: on_connection_closed_def)
  next
    case (Some k)
    have "length (filter connecting (devices (modify_device k
        (\<lambda>d. d\<lparr>is_connected := False, handle := None\<rparr>) app))) \<le>
        length (filter connecting (devices app))"
      by (rule modify_device_connecting) (simp add: connecting_def)
    with Some show ?thesis
      by (simp add: on_connection_closed_def)
  qed
  have svc: "length (filter connecting (devices (modify_device k
        (\<lambda>d. d\<lparr>services := g d\<rparr>) s))) \<le> length (filter connecting (devices s))"
    for k g s
    by (rule modify_device_connecting) (simp add: connecting_def)
  have service: "length (filter connecting (devices (on_service app c u s))) \<le>
      length (filter connecting (devices app))" for c u s
    using svc by (simp add: on_service_def split: option.split)
  have char: "length (filter connecting (devices (on_characteristic app c u h p))) \<le>
      length (filter connecting (devices app))" for c u h p
    using svc by (simp add: on_characteristic_def split: option.split)
  have store: "length (filter connecting (devices (store_characteristic_value a c h v))) \<le>
      length (filter connecting (devices a))" for a c h v
    using svc by (simp add: store_characteristic_value_def split: option.split)
  have val: "length (filter connecting (devices (on_characteristic_value ind app c h opc v))) \<le>
      length (filter connecting (devices app))" for c h opc v
  proof -
    have "devices (acknowledge_indication ind app c opc) = devices app"
      by (simp add: acknowledge_indication_def)
    with store [of "acknowledge_indication ind app c opc" c h v] show ?thesis
      by (simp add: on_characteristic_value_def)
  qed
  have completed: "length (filter connecting (devices (on_procedure_completed app c))) \<le>
      length (filter connecting (devices app))" for c
  proof (cases "get_device_by_handle (devices app) c")
    case None
    then show ?thesis by (simp add: on_procedure_completed_def)
  next
    case (Some k)
    show ?thesis
      unfolding on_procedure_completed_devices [OF Some]
      by (rule filter_update_le) (simp add: connecting_def)
  qed
  show ?thesis
  proof (cases "\<not> (is_ready app \<or> ev = bt_evt_system_boot)")
    case True
    then show ?thesis by (simp add: handle_event_def)
  next
    case False
    then show ?thesis
      using adv opened closed service char val completed
      by (cases ev) (simp_all add: handle_event_def on_boot_def)
  qed
qed

lemma connect_device_connecting:
  "length (filter connecting (devices app)) \<le> 1 \<Longrightarrow>
   length (filter connecting (devices (connect_device app dev r))) \<le> 1"
proof (cases "list_ex (\<lambda>d. handle d \<noteq> None \<and> \<not> is_connected d) (devices app)")
  case True
  assume "length (filter connecting (devices app)) \<le> 1"
  with True show ?thesis by (simp add: connect_device_def)
next
  case False
  then have "\<not> list_ex connecting (devices app)"
    by (simp add: connecting_def [abs_def])
  from filter_update_none [OF this] False show ?thesis
    by (simp add: connect_device_def modify_device_def)
qed

lemma perform_connecting:
  assumes "length (filter connecting (devices app)) \<le> 1"
  shows "length (filter connecting (devices (perform ind app act))) \<le> 1"
proof (cases act)
  case (Event ev)
  with handle_event_connecting [of ind app ev] assms show ?thesis
    by (simp add: perform_def)
next
  case (Connect dev r)
  with connect_device_connecting [OF assms] show ?thesis
    by (simp add: perform_def)
next
  case (Disconnect dev)
  with assms show ?thesis
    by (simp add: perform_def disconnect_device_def split: option.split)
next
  case (Read dev ch)
  with assms modify_characteristic_connecting
    [of ch "\<lambda>c. c\<lparr>c_state := READING\<rparr>"
      "call (ReadCharacteristicValue (handle (devices app ! dev))
         (c_handle (get_characteristic app ch))) app"]
  show ?thesis
    by (simp add: perform_def read_from_characteristic_def Let_def)
next
  case (Write dev ch pkt)
  show ?thesis
  proof (cases "fromhex pkt")
    case None
    with Write assms show ?thesis
      by (simp add: perform_def write_to_characteristic_def Let_def)
  next
    case (Some bs)
    with Write assms modify_characteristic_connecting
      [of ch "\<lambda>c. c\<lparr>c_state := WRITING, c_packet := pkt\<rparr>"
        "call (WriteCharacteristicValue (handle (devices app ! dev))
           (c_handle (get_characteristic app ch)) bs) app"]
    show ?thesis
      by (simp add: perform_def write_to_characteristic_def Let_def)
  qed
next
  case (SubscribeNotification dev ch)
  with assms modify_characteristic_connecting
    [of ch "\<lambda>c. c\<lparr>c_state := SUBSCRIBING_NOTIFICATION\<rparr>"
      "call (SetCharacteristicNotification (handle (devices app ! dev))
         (c_handle (get_characteristic app ch)) 1) app"]
  show ?thesis
    by (simp add: perform_def subscribe_to_notification_def Let_def)
next
  case (SubscribeIndication dev ch)
  with assms modify_characteristic_connecting
    [of ch "\<lambda>c. c\<lparr>c_state := SUBSCRIBING_INDICATION\<rparr>"
      "call (SetCharacteristicNotification (handle (devices app ! dev))
         (c_handle (get_characteristic app ch)) 2) app"]
  show ?thesis
    by (simp add: perform_def subscribe_to_indication_def Let_def)
qed

lemma foldl_perform_connecting:
  "length (filter connecting (devices app)) \<le> 1 \<Longrightarrow>
   length (filter connecting (devices (foldl (perform ind) app acts))) \<le> 1"
proof (induction acts arbitrary: app)
  case Nil
  then show ?case by simp
next
  case (Cons act acts)
  from Cons.prems have "length (filter connecting (devices (perform ind app act))) \<le> 1"
    by (rule perform_connecting)
  then have "length (filter connecting
      (devices (foldl (perform ind) (perform ind app act) acts))) \<le> 1"
    by (rule Cons.IH)
  then show ?case by simp
qed

section \<open>Verified properties\<close>

text \<open>
  C9. A ServiceDiscovered event that resolves to a device appends to that device's
  services a Service whose uuid is the event's UUID bytes reversed and rendered as
  uppercase hexadecimal text, in state DISCOVERING, with the event's service handle and no
  characteristics; the bytes CD AB give the uuid ABCD.
\<close>

theorem on_service_appends:
  assumes "get_device_by_handle (devices app) conn = Some i"
  shows "devices (on_service app conn uuid_bytes svc) =
           (devices app)[i := (devices app ! i)\<lparr>services := services (devices app ! i) @
              [\<lparr>s_uuid = upper (bytes_hex (rev uuid_bytes)), s_handle = svc,
                s_state = DISCOVERING, characteristics = []\<rparr>]\<rparr>]
         \<and> upper (bytes_hex (rev [0xCD, 0xAB])) = ''ABCD''"
proof -
  have "upper (bytes_hex (rev [0xCD, 0xAB])) = ''ABCD''"
    by code_simp
  with assms show ?thesis
    by (simp add: on_service_def modify_device_def Service_init_def)
qed

theorem on_service_appends_witness:
  "get_device_by_handle (devices test_app) 1 = Some 0 \<and>
   services (devices (on_service test_app 1 [0xCD, 0xAB] 7) ! 0) =
     [\<lparr>s_uuid = ''ABCD'', s_handle = 7, s_state = DISCOVERING, characteristics = []\<rparr>]"
proof -
  have h: "get_device_by_handle (devices test_app) 1 = Some 0"
    by (simp add: get_device_by_handle_def test_app_def test_device_def)
  have u: "upper (bytes_hex (rev [0xCD, 0xAB])) = ''ABCD''"
    by code_simp
  from on_service_appends [OF h, of "[0xCD, 0xAB]" 7] h u show ?thesis
    by (simp add: test_app_def test_device_def Device_init_def)
qed


text \<open>
  C10. While the readiness flag is clear the event loop drops every event that is not
  the boot event: a sequence of events without a boot event leaves the whole state as it
  was, so from the state in which \<open>run\<close> enters its loop the device collection stays
  empty and no command is sent.
\<close>

theorem events_before_boot_discarded:
  assumes "\<not> is_ready app" and "bt_evt_system_boot \<notin> set evs"
  shows "run_events ind app evs = app
         \<and> devices (run_events ind (ScannerApp_init\<lparr>is_running := True\<rparr>) evs) = []
         \<and> lib_calls (run_events ind (ScannerApp_init\<lparr>is_running := True\<rparr>) evs) = []"
proof -
  have gen: "run_events ind a evs = a" if "\<not> is_ready a" for a
    using that assms(2)
  proof (induction evs)
    case Nil
    then show ?case by simp
  next
    case (Cons ev evs)
    then have "handle_event ind a ev = a"
      by (auto simp: handle_event_not_ready)
    with Cons show ?case by simp
  qed
  have "\<not> is_ready (ScannerApp_init\<lparr>is_running := True\<rparr>)"
    by (simp add: ScannerApp_init_def)
  from gen [OF this] gen [OF assms(1)] show ?thesis
    by (simp add: ScannerApp_init_def)
qed

theorem events_before_boot_discarded_witness:
  "run_events 29 (ScannerApp_init\<lparr>is_running := True\<rparr>)
     [bt_evt_scanner_legacy_advertisement_report ''00:11:22:33:44:55'' [0x12, 0x34] 1 1 (- 100),
      bt_evt_connection_opened ''00:11:22:33:44:55'' 1,
      bt_evt_gatt_procedure_completed 1]
   = ScannerApp_init\<lparr>is_running := True\<rparr>"
proof -
  have r: "\<not> is_ready (ScannerApp_init\<lparr>is_running := True\<rparr>)"
    by (simp add: ScannerApp_init_def)
  have n: "bt_evt_system_boot \<notin> set
     [bt_evt_scanner_legacy_advertisement_report ''00:11:22:33:44:55'' [0x12, 0x34] 1 1 (- 100),
      bt_evt_connection_opened ''00:11:22:33:44:55'' 1,
      bt_evt_gatt_procedure_completed 1]"
    by simp
  from events_before_boot_discarded [OF r n, of 29] show ?thesis
    by simp
qed

text \<open>
  C8. With the outcome of each wait for the ready flag as input, the watchdog sends at
  most MAX_RETRY_ATTEMPTS = 3 reboot commands and nothing else, and touches no entity. If
  the initial wait sees the flag it returns without any effect; if the wait after the
  \<open>k\<close>-th reboot is the first to see it, it returns after exactly \<open>k\<close> reboots with the
  running flag as it was. It clears the running flag exactly when none of the four waits
  saw the flag.
\<close>

theorem watchdog_bounded_retry:
  "(\<exists>n \<le> MAX_RETRY_ATTEMPTS.
      lib_calls (watchdog ready_wait app) = lib_calls app @ replicate n Reboot)
   \<and> devices (watchdog ready_wait app) = devices app
   \<and> (ready_wait 0 \<longrightarrow> watchdog ready_wait app = app)
   \<and> (\<not> ready_wait 0 \<and> ready_wait 1 \<longrightarrow> watchdog ready_wait app = reboot app)
   \<and> (\<not> ready_wait 0 \<and> \<not> ready_wait 1 \<and> ready_wait 2 \<longrightarrow>
        watchdog ready_wait app = reboot (reboot app))
   \<and> (\<not> ready_wait 0 \<and> \<not> ready_wait 1 \<and> \<not> ready_wait 2 \<and> ready_wait 3 \<longrightarrow>
        watchdog ready_wait app = reboot (reboot (reboot app)))
   \<and> (is_running app \<longrightarrow>
        (\<not> is_running (watchdog ready_wait app) \<longleftrightarrow>
          (\<forall>k \<le> MAX_RETRY_ATTEMPTS. \<not> ready_wait k)))"
proof -
  have all3: "(\<forall>k \<le> (3::nat). \<not> ready_wait k) \<longleftrightarrow>
      (\<not> ready_wait 0 \<and> \<not> ready_wait 1 \<and> \<not> ready_wait 2 \<and> \<not> ready_wait 3)"
  proof
    assume "\<forall>k \<le> (3::nat). \<not> ready_wait k"
    then show "\<not> ready_wait 0 \<and> \<not> ready_wait 1 \<and> \<not> ready_wait 2 \<and> \<not> ready_wait 3"
      by simp
  next
    assume h: "\<not> ready_wait 0 \<and> \<not> ready_wait 1 \<and> \<not> ready_wait 2 \<and> \<not> ready_wait 3"
    show "\<forall>k \<le> (3::nat). \<not> ready_wait k"
    proof (intro allI impI)
      fix k :: nat
      assume "k \<le> 3"
      then have "k = 0 \<or> k = 1 \<or> k = 2 \<or> k = 3" by arith
      with h show "\<not> ready_wait k" by auto
    qed
  qed
  have r0: "replicate 0 Reboot = []" and r1: "replicate 1 Reboot = [Reboot]"
    and r2: "replicate 2 Reboot = [Reboot, Reboot]"
    and r3: "replicate 3 Reboot = [Reboot, Reboot, Reboot]"
    by (simp_all add: numeral_2_eq_2 numeral_3_eq_3)
  have calls: "\<exists>n \<le> MAX_RETRY_ATTEMPTS.
      lib_calls (watchdog ready_wait app) = lib_calls app @ replicate n Reboot"
  proof -
    consider (a) "ready_wait 0" | (b) "\<not> ready_wait 0" "ready_wait 1"
      | (c) "\<not> ready_wait 0" "\<not> ready_wait 1" "ready_wait 2"
      | (d) "\<not> ready_wait 0" "\<not> ready_wait 1" "\<not> ready_wait 2"
      by blast
    then show ?thesis
    proof cases
      case a
      then have "lib_calls (watchdog ready_wait app) = lib_calls app @ replicate 0 Reboot"
        by (simp add: watchdog_unrolled)
      then show ?thesis by (intro exI [of _ 0]) simp
    next
      case b
      then have "lib_calls (watchdog ready_wait app) = lib_calls app @ replicate 1 Reboot"
        by (simp add: watchdog_unrolled reboot_def call_def)
      then show ?thesis
        by (intro exI [of _ 1]) (simp add: MAX_RETRY_ATTEMPTS_def)
    next
      case c
      then have "lib_calls (watchdog ready_wait app) = lib_calls app @ replicate 2 Reboot"
        by (simp add: watchdog_unrolled reboot_def call_def r2)
      then show ?thesis
        by (intro exI [of _ 2]) (simp add: MAX_RETRY_ATTEMPTS_def)
    next
      case d
      then have "lib_calls (watchdog ready_wait app) = lib_calls app @ replicate 3 Reboot"
        by (simp add: watchdog_unrolled reboot_def call_def stop_def r3)
      then show ?thesis
        by (intro exI [of _ 3]) (simp add: MAX_RETRY_ATTEMPTS_def)
    qed
  qed
  have devs: "devices (watchdog ready_wait app) = devices app"
    by (simp add: watchdog_unrolled reboot_def call_def stop_def)
  have run: "is_running app \<longrightarrow>
        (\<not> is_running (watchdog ready_wait app) \<longleftrightarrow>
          (\<forall>k \<le> MAX_RETRY_ATTEMPTS. \<not> ready_wait k))"
    unfolding MAX_RETRY_ATTEMPTS_def all3
    by (simp add: watchdog_unrolled reboot_def call_def stop_def)
  from calls devs run show ?thesis
    by (simp add: watchdog_unrolled)
qed

theorem watchdog_bounded_retry_witness:
  "is_running (ScannerApp_init\<lparr>is_running := True\<rparr>) \<and>
   \<not> is_running (watchdog (\<lambda>k. False) (ScannerApp_init\<lparr>is_running := True\<rparr>)) \<and>
   watchdog (\<lambda>k. k = 0) ScannerApp_init = ScannerApp_init \<and>
   lib_calls (watchdog (\<lambda>k. k = 2) ScannerApp_init) = [Reboot, Reboot] \<and>
   is_running (watchdog (\<lambda>k. k = 3) (ScannerApp_init\<lparr>is_running := True\<rparr>))"
proof -
  let ?a = "ScannerApp_init\<lparr>is_running := True\<rparr>"
  have r: "is_running ?a" by simp
  from watchdog_bounded_retry [of "\<lambda>k. False" ?a] r
  have 1: "\<not> is_running (watchdog (\<lambda>k. False) ?a)" by simp
  from watchdog_bounded_retry [of "\<lambda>k. k = 0" ScannerApp_init]
  have 2: "watchdog (\<lambda>k. k = 0) ScannerApp_init = ScannerApp_init" by simp
  from watchdog_bounded_retry [of "\<lambda>k. k = 2" ScannerApp_init]
  have 3: "lib_calls (watchdog (\<lambda>k. k = 2) ScannerApp_init) = [Reboot, Reboot]"
    by (simp add: reboot_def call_def ScannerApp_init_def)
  from watchdog_bounded_retry [of "\<lambda>k. k = 3" ?a] r
  have 4: "is_running (watchdog (\<lambda>k. k = 3) ?a)"
    by (auto simp: MAX_RETRY_ATTEMPTS_def)
  from r 1 2 3 4 show ?thesis by simp
qed


text \<open>
  C1 (as amended). A ProcedureCompleted event that resolves to a device changes that
  device's services only, and advances at most one marker, the first one met in a single
  pass over the services in insertion order: a service that is not DISCOVERED is marked
  DISCOVERED when every service before it is idle; a characteristic that is not NONE is
  reset to NONE when its service is DISCOVERED, the services before it are idle and the
  characteristics before it in its service are NONE; when every service is idle nothing
  changes. Services do not take priority over the characteristics of earlier services.
\<close>

theorem procedure_completed_single_pass:
  assumes "get_device_by_handle (devices app) conn = Some i"
  shows "devices (on_procedure_completed app conn) =
           (devices app)[i := (devices app ! i)\<lparr>services :=
              services (devices (on_procedure_completed app conn) ! i)\<rparr>]
   \<and> (\<forall>pre s post.
         services (devices app ! i) = pre @ s # post \<and> list_all idle_service pre \<and>
         s_state s \<noteq> DISCOVERED \<longrightarrow>
         services (devices (on_procedure_completed app conn) ! i) =
           pre @ s\<lparr>s_state := DISCOVERED\<rparr> # post)
   \<and> (\<forall>pre s post cpre c cpost.
         services (devices app ! i) = pre @ s # post \<and> list_all idle_service pre \<and>
         s_state s = DISCOVERED \<and> characteristics s = cpre @ c # cpost \<and>
         list_all idle_characteristic cpre \<and> c_state c \<noteq> NONE \<longrightarrow>
         services (devices (on_procedure_completed app conn) ! i) =
           pre @ s\<lparr>characteristics := cpre @ c\<lparr>c_state := NONE\<rparr> # cpost\<rparr> # post)
   \<and> (list_all idle_service (services (devices app ! i)) \<longrightarrow>
         services (devices (on_procedure_completed app conn) ! i) =
           services (devices app ! i))"
proof -
  note sv = on_procedure_completed_services [OF assms]
  have 1: "devices (on_procedure_completed app conn) =
           (devices app)[i := (devices app ! i)\<lparr>services :=
              services (devices (on_procedure_completed app conn) ! i)\<rparr>]"
    unfolding sv by (rule on_procedure_completed_devices [OF assms])
  have 2: "services (devices (on_procedure_completed app conn) ! i) =
           pre @ s\<lparr>s_state := DISCOVERED\<rparr> # post"
    if "services (devices app ! i) = pre @ s # post" "list_all idle_service pre"
       "s_state s \<noteq> DISCOVERED" for pre s post
    unfolding sv that(1) by (rule update_marks_first_undiscovered [OF that(2,3)])
  have 3: "services (devices (on_procedure_completed app conn) ! i) =
           pre @ s\<lparr>characteristics := cpre @ c\<lparr>c_state := NONE\<rparr> # cpost\<rparr> # post"
    if "services (devices app ! i) = pre @ s # post" "list_all idle_service pre"
       "s_state s = DISCOVERED" "characteristics s = cpre @ c # cpost"
       "list_all idle_characteristic cpre" "c_state c \<noteq> NONE" for pre s post cpre c cpost
  proof -
    have "reset_first_active (characteristics s) =
        Some (cpre @ c\<lparr>c_state := NONE\<rparr> # cpost)"
      unfolding that(4) by (rule reset_first_active_first [OF that(5,6)])
    from update_resets_first_active [OF that(2,3) this] show ?thesis
      unfolding sv that(1) .
  qed
  have 4: "services (devices (on_procedure_completed app conn) ! i) =
           services (devices app ! i)"
    if "list_all idle_service (services (devices app ! i))"
    unfolding sv by (rule update_all_idle [OF that])
  from 1 2 3 4 show ?thesis by blast
qed


theorem procedure_completed_single_pass_witness:
  "services (devices (on_procedure_completed
       (test_app_with [Service_init ''0000'' 1, Service_init ''0001'' 2]) 1) ! 0) =
     [(Service_init ''0000'' 1)\<lparr>s_state := DISCOVERED\<rparr>, Service_init ''0001'' 2]
   \<and> services (devices (on_procedure_completed stale_read_app 1) ! 0) =
     [discovered_service ''0000'' 1 [reading_characteristic\<lparr>c_state := NONE\<rparr>],
      Service_init ''0001'' 2]
   \<and> services (devices (on_procedure_completed
       (test_app_with [discovered_service ''0000'' 1 [Characteristic_init ''ABCD'' 3 2]]) 1) ! 0) =
     [discovered_service ''0000'' 1 [Characteristic_init ''ABCD'' 3 2]]"
proof -
  let ?a = "test_app_with [Service_init ''0000'' 1, Service_init ''0001'' 2]"
  let ?c = "test_app_with [discovered_service ''0000'' 1 [Characteristic_init ''ABCD'' 3 2]]"
  have h: "get_device_by_handle (devices (test_app_with ss)) 1 = Some 0" for ss
    by (simp add: get_device_by_handle_def test_app_with_def test_device_def)
  have sv: "services (devices (test_app_with ss) ! 0) = ss" for ss
    by (simp add: test_app_with_def)
  note mark = procedure_completed_single_pass
    [OF h, THEN conjunct2, THEN conjunct1, rule_format]
  note reset = procedure_completed_single_pass
    [OF h, THEN conjunct2, THEN conjunct2, THEN conjunct1, rule_format]
  note keep = procedure_completed_single_pass
    [OF h, THEN conjunct2, THEN conjunct2, THEN conjunct2, rule_format]
  have a: "services (devices (on_procedure_completed ?a 1) ! 0) =
     [] @ (Service_init ''0000'' 1)\<lparr>s_state := DISCOVERED\<rparr> # [Service_init ''0001'' 2]"
    by (rule mark) (simp add: sv Service_init_def)
  have b: "services (devices (on_procedure_completed stale_read_app 1) ! 0) =
     [] @ (discovered_service ''0000'' 1 [reading_characteristic])
        \<lparr>characteristics := [] @ reading_characteristic\<lparr>c_state := NONE\<rparr> # []\<rparr>
      # [Service_init ''0001'' 2]"
    unfolding stale_read_app_def
    by (rule reset)
      (simp add: sv discovered_service_def Service_init_def reading_characteristic_def
        Characteristic_init_def)
  have c: "services (devices (on_procedure_completed ?c 1) ! 0) =
     services (devices ?c ! 0)"
    by (rule keep)
      (simp add: sv discovered_service_def Service_init_def idle_service_def
        idle_characteristic_def Characteristic_init_def)
  from a b c show ?thesis
    by (simp add: discovered_service_def sv)
qed


text \<open>
  The sentence of the specification fails as written: with a DISCOVERED first service holding a READING
  characteristic and a second service still DISCOVERING, the event resets the
  characteristic and leaves the second service DISCOVERING.
\<close>

theorem procedure_completed_services_first_counterexample:
  "get_device_by_handle (devices stale_read_app) 1 = Some 0
   \<and> map s_state (services (devices stale_read_app ! 0)) = [DISCOVERED, DISCOVERING]
   \<and> map (map c_state \<circ> characteristics) (services (devices stale_read_app ! 0)) =
       [[READING], []]
   \<and> map s_state (services (devices (on_procedure_completed stale_read_app 1) ! 0)) =
       [DISCOVERED, DISCOVERING]
   \<and> map (map c_state \<circ> characteristics)
       (services (devices (on_procedure_completed stale_read_app 1) ! 0)) = [[NONE], []]"
  by (simp add: stale_read_app_def test_app_with_def test_device_def Device_init_def
      ScannerApp_init_def discovered_service_def Service_init_def reading_characteristic_def
      Characteristic_init_def get_device_by_handle_def on_procedure_completed_def
      modify_device_def call_def Let_def)


text \<open>
  C2 (as amended). A ConnectionOpened event that resolves to a device (by address) marks
  the device connected and issues one primary-service discovery for the event's
  connection; it leaves the device's list of services as it is, so every Service and
  Characteristic recorded before the reconnect survives, and a service discovered
  afterwards is appended to them.
\<close>

theorem connection_opened_keeps_services:
  assumes "get_device_by_address (devices app) (upper a) = Some i"
  shows "devices (on_connection_opened app a c) =
           (devices app)[i := (devices app ! i)\<lparr>is_connected := True\<rparr>]
   \<and> lib_calls (on_connection_opened app a c) = lib_calls app @ [DiscoverPrimaryServices c]
   \<and> services (devices (on_connection_opened app a c) ! i) = services (devices app ! i)
   \<and> (get_device_by_handle (devices app) c = Some i \<longrightarrow>
        services (devices (on_service (on_connection_opened app a c) c u h) ! i) =
          services (devices app ! i) @ [Service_init (upper (bytes_hex (rev u))) h])"
proof -
  let ?app' = "on_connection_opened app a c"
  from assms have i: "i < length (devices app)"
    by (rule get_device_by_address_bound)
  have d: "devices ?app' = (devices app)[i := (devices app ! i)\<lparr>is_connected := True\<rparr>]"
    using assms by (simp add: on_connection_opened_def modify_device_def call_def)
  have l: "lib_calls ?app' = lib_calls app @ [DiscoverPrimaryServices c]"
    using assms by (simp add: on_connection_opened_def modify_device_def call_def)
  have s: "services (devices ?app' ! i) = services (devices app ! i)"
    using i by (simp add: d)
  have n: "services (devices (on_service ?app' c u h) ! i) =
          services (devices app ! i) @ [Service_init (upper (bytes_hex (rev u))) h]"
    if "get_device_by_handle (devices app) c = Some i"
  proof -
    have "get_device_by_handle (devices ?app') c = Some i"
      unfolding d using that i by (simp add: get_device_by_handle_update)
    then show ?thesis
      using i by (simp add: on_service_def modify_device_def d)
  qed
  from d l s n show ?thesis by blast
qed

theorem connection_opened_keeps_services_witness:
  "services (devices (on_connection_opened (connect_device first_session 0 2)
       ''00:11:22:33:44:55'' 2) ! 0) = services (devices first_session ! 0)
   \<and> services (devices (on_service (on_connection_opened (connect_device first_session 0 2)
       ''00:11:22:33:44:55'' 2) 2 [0x00, 0x18] 1) ! 0) =
       services (devices first_session ! 0) @ [Service_init ''1800'' 1]"
proof -
  let ?s = "connect_device first_session 0 2"
  have sv: "services (devices ?s ! 0) = services (devices first_session ! 0)"
    by code_simp
  have a: "get_device_by_address (devices ?s) (upper ''00:11:22:33:44:55'') = Some 0"
    by code_simp
  have h: "get_device_by_handle (devices ?s) 2 = Some 0"
    by code_simp
  have u: "upper (bytes_hex (rev [0x00, 0x18])) = ''1800''"
    by code_simp
  note t = connection_opened_keeps_services [OF a, of 2 "[0x00, 0x18]" 1,
      THEN conjunct2, THEN conjunct2]
  from t [THEN conjunct1] t [THEN conjunct2, rule_format, OF h] sv u
  show ?thesis by simp
qed


text \<open>
  The sentence of the specification fails as written: after a first session that discovered two services and a
  characteristic, reconnecting leaves both services in place, and the next discovered
  service is appended as a third.
\<close>

theorem reconnect_keeps_services_counterexample:
  "services (devices first_session ! 0) =
     [discovered_service ''1800'' 1 [],
      discovered_service ''180A'' 2 [Characteristic_init ''2A29'' 3 2]]
   \<and> lib_calls reconnected = lib_calls first_session @
        [ConnectionOpen ''00:11:22:33:44:55'' (Some 1), DiscoverPrimaryServices 2]
   \<and> services (devices reconnected ! 0) =
     [discovered_service ''1800'' 1 [],
      discovered_service ''180A'' 2 [Characteristic_init ''2A29'' 3 2]]
   \<and> services (devices (on_service reconnected 2 [0x00, 0x18] 1) ! 0) =
     [discovered_service ''1800'' 1 [],
      discovered_service ''180A'' 2 [Characteristic_init ''2A29'' 3 2],
      Service_init ''1800'' 1]"
  by code_simp


text \<open>
  C3. On a connected device that is not busy, writing ''ABCD'' to one of the device's
  characteristics succeeds, sends one write command carrying the bytes AB CD, and leaves
  the characteristic in state WRITING with the stored value ''ABCD'' (the hexadecimal
  text of the bytes AB CD). A ProcedureCompleted event that then resolves to the device
  resets the characteristic to NONE and leaves the stored value as it is.
\<close>

theorem write_then_completed_round_trip:
  assumes dev: "dev < length (devices app)"
    and conn: "is_connected (devices app ! dev)"
    and idle: "\<not> is_using_gatt_command (devices app ! dev)"
    and i: "i < length (services (devices app ! dev))"
    and j: "j < length (characteristics (services (devices app ! dev) ! i))"
    and ev: "get_device_by_handle (devices app) h = Some dev"
  shows "\<exists>app1. write_to_characteristic app dev (dev, i, j) ''ABCD'' = Inr app1
     \<and> lib_calls app1 = lib_calls app @
         [WriteCharacteristicValue (Some h) (c_handle (get_characteristic app (dev, i, j)))
            [0xAB, 0xCD]]
     \<and> c_state (get_characteristic app1 (dev, i, j)) = WRITING
     \<and> c_packet (get_characteristic app1 (dev, i, j)) = ''ABCD''
     \<and> fromhex (c_packet (get_characteristic app1 (dev, i, j))) = Some [0xAB, 0xCD]
     \<and> c_state (get_characteristic (on_procedure_completed app1 h) (dev, i, j)) = NONE
     \<and> c_packet (get_characteristic (on_procedure_completed app1 h) (dev, i, j)) = ''ABCD''"
proof -
  let ?r = "(dev, i, j)"
  let ?d = "devices app ! dev"
  let ?f = "\<lambda>c. c\<lparr>c_state := WRITING, c_packet := ''ABCD''\<rparr>"
  let ?cmd = "WriteCharacteristicValue (Some h) (c_handle (get_characteristic app ?r))
      [0xAB, 0xCD]"
  let ?app1 = "modify_characteristic ?r ?f (call ?cmd app)"
  from ev have hd: "handle ?d = Some h"
    using find_index_Some [of "\<lambda>d. handle d = Some h" "devices app" dev]
    by (simp add: get_device_by_handle_def)
  have fh: "fromhex ''ABCD'' = Some [0xAB, 0xCD]"
    by code_simp
  have v: "valid_ref app ?r"
    using dev i j by (simp add: valid_ref_def)
  have w: "write_to_characteristic app dev ?r ''ABCD'' = Inr ?app1"
    using conn idle hd unfolding write_to_characteristic_def Let_def fh by simp
  have c1: "get_characteristic ?app1 ?r = ?f (get_characteristic app ?r)"
    by (rule get_modify_characteristic [OF v]) simp
  have d1: "devices ?app1 = (devices app)[dev := ?d\<lparr>services :=
        set_characteristic (i, j) ?f (services ?d)\<rparr>]"
    by (simp add: devices_modify_characteristic)
  have ev1: "get_device_by_handle (devices ?app1) h = Some dev"
    unfolding d1 using dev ev by (simp add: get_device_by_handle_update)
  have s1: "services (devices ?app1 ! dev) = set_characteristic (i, j) ?f (services ?d)"
    unfolding d1 using dev by simp
  from idle have all_idle: "list_all idle_service (services ?d)"
    by (simp add: not_busy_iff)
  have s2: "services (devices (on_procedure_completed ?app1 h) ! dev) =
      set_characteristic (i, j) (\<lambda>c. (?f c)\<lparr>c_state := NONE\<rparr>) (services ?d)"
    unfolding on_procedure_completed_services [OF ev1] s1
    by (rule update_after_set_characteristic [OF all_idle i j]) simp
  have c2: "get_characteristic (on_procedure_completed ?app1 h) ?r =
      (?f (get_characteristic app ?r))\<lparr>c_state := NONE\<rparr>"
    using s2 set_characteristic_nth [OF i j]
    by (simp add: get_characteristic_def)
  show ?thesis
    by (rule exI [of _ ?app1]) (simp add: w c1 c2 fh del: fromhex.simps)
qed

theorem write_then_completed_round_trip_witness:
  "\<exists>app1. write_to_characteristic idle_app 0 (0, 0, 0) ''ABCD'' = Inr app1
     \<and> lib_calls app1 = [WriteCharacteristicValue (Some 1) 2 [0xAB, 0xCD]]
     \<and> c_state (get_characteristic app1 (0, 0, 0)) = WRITING
     \<and> c_packet (get_characteristic app1 (0, 0, 0)) = ''ABCD''
     \<and> c_state (get_characteristic (on_procedure_completed app1 1) (0, 0, 0)) = NONE
     \<and> c_packet (get_characteristic (on_procedure_completed app1 1) (0, 0, 0)) = ''ABCD''"
proof -
  from write_then_completed_round_trip [OF idle_app_facts(1-6)]
  obtain app1 where
    "write_to_characteristic idle_app 0 (0, 0, 0) ''ABCD'' = Inr app1"
    "lib_calls app1 = lib_calls idle_app @
       [WriteCharacteristicValue (Some 1) (c_handle (get_characteristic idle_app (0, 0, 0)))
          [0xAB, 0xCD]]"
    "c_state (get_characteristic app1 (0, 0, 0)) = WRITING"
    "c_packet (get_characteristic app1 (0, 0, 0)) = ''ABCD''"
    "c_state (get_characteristic (on_procedure_completed app1 1) (0, 0, 0)) = NONE"
    "c_packet (get_characteristic (on_procedure_completed app1 1) (0, 0, 0)) = ''ABCD''"
    by blast
  then show ?thesis
    by (intro exI [of _ app1]) (simp add: idle_app_facts(8,10) Characteristic_init_def)
qed


text \<open>
  C5. Each of the four GATT operations returns the state unchanged, with no command
  sent and no error, when the target device is busy or not connected. When the device is
  connected and not busy, each sends exactly its command, with the device's connection
  handle and the characteristic's handle (the write with the bytes its hexadecimal
  payload denotes, subscriptions with mode 1 for notifications and 2 for indications),
  and sets the characteristic's command-state to READING, WRITING,
  SUBSCRIBING_NOTIFICATION or SUBSCRIBING_INDICATION.
\<close>

theorem gatt_commands_guarded:
  "(is_using_gatt_command (devices app ! dev) \<or> \<not> is_connected (devices app ! dev) \<longrightarrow>
      read_from_characteristic app dev ch = app \<and>
      write_to_characteristic app dev ch pkt = Inr app \<and>
      subscribe_to_notification app dev ch = app \<and>
      subscribe_to_indication app dev ch = app)
   \<and> (\<not> is_using_gatt_command (devices app ! dev) \<and> is_connected (devices app ! dev) \<and>
       valid_ref app ch \<longrightarrow>
      lib_calls (read_from_characteristic app dev ch) = lib_calls app @
        [ReadCharacteristicValue (handle (devices app ! dev))
           (c_handle (get_characteristic app ch))] \<and>
      get_characteristic (read_from_characteristic app dev ch) ch =
        (get_characteristic app ch)\<lparr>c_state := READING\<rparr> \<and>
      (\<forall>bs. fromhex pkt = Some bs \<longrightarrow>
         (\<exists>app'. write_to_characteristic app dev ch pkt = Inr app' \<and>
            lib_calls app' = lib_calls app @
              [WriteCharacteristicValue (handle (devices app ! dev))
                 (c_handle (get_characteristic app ch)) bs] \<and>
            get_characteristic app' ch =
              (get_characteristic app ch)\<lparr>c_state := WRITING, c_packet := pkt\<rparr>)) \<and>
      lib_calls (subscribe_to_notification app dev ch) = lib_calls app @
        [SetCharacteristicNotification (handle (devices app ! dev))
           (c_handle (get_characteristic app ch)) 1] \<and>
      get_characteristic (subscribe_to_notification app dev ch) ch =
        (get_characteristic app ch)\<lparr>c_state := SUBSCRIBING_NOTIFICATION\<rparr> \<and>
      lib_calls (subscribe_to_indication app dev ch) = lib_calls app @
        [SetCharacteristicNotification (handle (devices app ! dev))
           (c_handle (get_characteristic app ch)) 2] \<and>
      get_characteristic (subscribe_to_indication app dev ch) ch =
        (get_characteristic app ch)\<lparr>c_state := SUBSCRIBING_INDICATION\<rparr>)"
proof -
  have noop: "read_from_characteristic app dev ch = app \<and>
      write_to_characteristic app dev ch pkt = Inr app \<and>
      subscribe_to_notification app dev ch = app \<and>
      subscribe_to_indication app dev ch = app"
    if "is_using_gatt_command (devices app ! dev) \<or> \<not> is_connected (devices app ! dev)"
    using that
    by (auto simp: read_from_characteristic_def write_to_characteristic_def
        subscribe_to_notification_def subscribe_to_indication_def Let_def)
  have act: "lib_calls (read_from_characteristic app dev ch) = lib_calls app @
        [ReadCharacteristicValue (handle (devices app ! dev))
           (c_handle (get_characteristic app ch))] \<and>
      get_characteristic (read_from_characteristic app dev ch) ch =
        (get_characteristic app ch)\<lparr>c_state := READING\<rparr> \<and>
      (\<forall>bs. fromhex pkt = Some bs \<longrightarrow>
         (\<exists>app'. write_to_characteristic app dev ch pkt = Inr app' \<and>
            lib_calls app' = lib_calls app @
              [WriteCharacteristicValue (handle (devices app ! dev))
                 (c_handle (get_characteristic app ch)) bs] \<and>
            get_characteristic app' ch =
              (get_characteristic app ch)\<lparr>c_state := WRITING, c_packet := pkt\<rparr>)) \<and>
      lib_calls (subscribe_to_notification app dev ch) = lib_calls app @
        [SetCharacteristicNotification (handle (devices app ! dev))
           (c_handle (get_characteristic app ch)) 1] \<and>
      get_characteristic (subscribe_to_notification app dev ch) ch =
        (get_characteristic app ch)\<lparr>c_state := SUBSCRIBING_NOTIFICATION\<rparr> \<and>
      lib_calls (subscribe_to_indication app dev ch) = lib_calls app @
        [SetCharacteristicNotification (handle (devices app ! dev))
           (c_handle (get_characteristic app ch)) 2] \<and>
      get_characteristic (subscribe_to_indication app dev ch) ch =
        (get_characteristic app ch)\<lparr>c_state := SUBSCRIBING_INDICATION\<rparr>"
    if "\<not> is_using_gatt_command (devices app ! dev)" "is_connected (devices app ! dev)"
       "valid_ref app ch"
    using that(1,2)
    by (simp add: read_from_characteristic_def write_to_characteristic_def
        subscribe_to_notification_def subscribe_to_indication_def Let_def
        get_modify_characteristic [OF that(3)])
  from noop act show ?thesis by blast
qed

theorem gatt_commands_guarded_witness:
  "read_from_characteristic discovering_app 0 (0, 0, 0) = discovering_app
   \<and> write_to_characteristic discovering_app 0 (0, 0, 0) ''ABCD'' = Inr discovering_app
   \<and> lib_calls (read_from_characteristic idle_app 0 (0, 0, 0)) =
       [ReadCharacteristicValue (Some 1) 2]
   \<and> c_state (get_characteristic (read_from_characteristic idle_app 0 (0, 0, 0)) (0, 0, 0)) =
       READING
   \<and> (\<exists>app'. write_to_characteristic idle_app 0 (0, 0, 0) ''ABCD'' = Inr app' \<and>
         lib_calls app' = [WriteCharacteristicValue (Some 1) 2 [0xAB, 0xCD]] \<and>
         c_state (get_characteristic app' (0, 0, 0)) = WRITING)
   \<and> lib_calls (subscribe_to_indication idle_app 0 (0, 0, 0)) =
       [SetCharacteristicNotification (Some 1) 2 2]"
proof -
  have busy: "is_using_gatt_command (devices discovering_app ! 0) \<or>
      \<not> is_connected (devices discovering_app ! 0)"
    by (simp add: discovering_app_def test_app_with_def is_using_gatt_command_def
        Service_init_def)
  have fh: "fromhex ''ABCD'' = Some [0xAB, 0xCD]"
    by code_simp
  note noop = gatt_commands_guarded
    [of discovering_app 0 "(0, 0, 0)" "''ABCD''", THEN conjunct1, rule_format, OF busy]
  have ready: "\<not> is_using_gatt_command (devices idle_app ! 0) \<and>
      is_connected (devices idle_app ! 0) \<and> valid_ref idle_app (0, 0, 0)"
    by (simp add: idle_app_facts)
  note act = gatt_commands_guarded
    [of idle_app 0 "(0, 0, 0)" "''ABCD''", THEN conjunct2, rule_format, OF ready]
  from act have w: "\<exists>app'. write_to_characteristic idle_app 0 (0, 0, 0) ''ABCD'' = Inr app' \<and>
         lib_calls app' = lib_calls idle_app @
           [WriteCharacteristicValue (handle (devices idle_app ! 0))
              (c_handle (get_characteristic idle_app (0, 0, 0))) [0xAB, 0xCD]] \<and>
         get_characteristic app' (0, 0, 0) =
           (get_characteristic idle_app (0, 0, 0))\<lparr>c_state := WRITING, c_packet := ''ABCD''\<rparr>"
    using fh by blast
  then have w': "\<exists>app'. write_to_characteristic idle_app 0 (0, 0, 0) ''ABCD'' = Inr app' \<and>
         lib_calls app' = [WriteCharacteristicValue (Some 1) 2 [0xAB, 0xCD]] \<and>
         c_state (get_characteristic app' (0, 0, 0)) = WRITING"
    by (auto simp: idle_app_facts(8,9,10) Characteristic_init_def)
  from noop act w' show ?thesis
    by (simp add: idle_app_facts(8,9,10) Characteristic_init_def)
qed

text \<open>
  C6. Handling a CharacteristicValue event sends exactly one confirmation for the event's
  connection when the event's opcode is the indication opcode and nothing otherwise, and
  the device collection recorded with that confirmation is the collection as it was before
  the event: the confirmation is sent before any entity is changed. No command-state of any
  characteristic is changed by the event, and when the event resolves to a device and a
  characteristic, that characteristic's stored value becomes the hexadecimal text of the
  delivered payload.
\<close>

theorem characteristic_value_acknowledged_first:
  "lib_calls (on_characteristic_value ind app conn ch opc v) =
       lib_calls app @ (if opc = ind then [SendCharacteristicConfirmation conn] else [])
   \<and> call_states (on_characteristic_value ind app conn ch opc v) =
       call_states app @ (if opc = ind then [devices app] else [])
   \<and> command_states (devices (on_characteristic_value ind app conn ch opc v)) =
       command_states (devices app)
   \<and> (\<forall>i p. get_device_by_handle (devices app) conn = Some i \<and>
         get_characteristic_by_handle (services (devices app ! i)) ch = Some p \<longrightarrow>
         get_characteristic (on_characteristic_value ind app conn ch opc v) (i, p) =
           (get_characteristic app (i, p))\<lparr>c_packet := bytes_hex v\<rparr>)"
proof -
  let ?a = "acknowledge_indication ind app conn opc"
  have d: "devices ?a = devices app"
    by (simp add: acknowledge_indication_def)
  have l: "lib_calls ?a =
       lib_calls app @ (if opc = ind then [SendCharacteristicConfirmation conn] else [])"
    by (simp add: acknowledge_indication_def)
  have t: "call_states ?a = call_states app @ (if opc = ind then [devices app] else [])"
    by (simp add: acknowledge_indication_def)
  have s: "command_states (devices (on_characteristic_value ind app conn ch opc v)) =
       command_states (devices app)"
    by (simp add: on_characteristic_value_def store_characteristic_value_states d)
  have p: "get_characteristic (on_characteristic_value ind app conn ch opc v) (i, p) =
           (get_characteristic app (i, p))\<lparr>c_packet := bytes_hex v\<rparr>"
    if i: "get_device_by_handle (devices app) conn = Some i"
      and c: "get_characteristic_by_handle (services (devices app ! i)) ch = Some p" for i p
  proof -
    obtain a b where ab: "p = (a, b)" by (cases p)
    from get_characteristic_by_handle_bound [OF c [unfolded ab]]
    have a: "a < length (services (devices app ! i))"
      and b: "b < length (characteristics (services (devices app ! i) ! a))"
      by simp_all
    from i have il: "i < length (devices app)"
      by (rule get_device_by_handle_bound)
    show ?thesis
      using i c il
      by (simp add: on_characteristic_value_def store_characteristic_value_def d
          modify_device_def get_characteristic_def ab set_characteristic_nth [OF a b])
  qed
  from l t s p show ?thesis
    by (simp add: on_characteristic_value_def lib_calls_store_characteristic_value
        call_states_store_characteristic_value)
qed

theorem characteristic_value_acknowledged_first_witness:
  "lib_calls (on_characteristic_value 29 indicating_app 1 2 29 [0x12, 0x34]) =
     [SendCharacteristicConfirmation 1]
   \<and> call_states (on_characteristic_value 29 indicating_app 1 2 29 [0x12, 0x34]) =
     [devices indicating_app]
   \<and> devices (on_characteristic_value 29 indicating_app 1 2 29 [0x12, 0x34]) \<noteq>
     devices indicating_app
   \<and> get_characteristic (on_characteristic_value 29 indicating_app 1 2 29 [0x12, 0x34])
       (0, 0, 0) =
     (Characteristic_init ''0001'' 2 32)
       \<lparr>c_state := SUBSCRIBING_INDICATION, c_packet := ''1234''\<rparr>"
proof -
  let ?r = "on_characteristic_value 29 indicating_app 1 2 29 [0x12, 0x34]"
  have h: "get_device_by_handle (devices indicating_app) 1 = Some 0 \<and>
      get_characteristic_by_handle (services (devices indicating_app ! 0)) 2 = Some (0, 0)"
    by (simp add: indicating_app_def test_app_with_def test_device_def
        get_device_by_handle_def discovered_service_def Service_init_def
        Characteristic_init_def)
  have x: "bytes_hex [0x12, 0x34] = ''1234''"
    by code_simp
  have c: "get_characteristic indicating_app (0, 0, 0) =
      (Characteristic_init ''0001'' 2 32)\<lparr>c_state := SUBSCRIBING_INDICATION\<rparr>"
    by (simp add: indicating_app_def test_app_with_def get_characteristic_def
        discovered_service_def)
  have l: "lib_calls indicating_app = []" "call_states indicating_app = []"
    by (simp_all add: indicating_app_def test_app_with_def ScannerApp_init_def)
  note t = characteristic_value_acknowledged_first
    [of 29 indicating_app 1 2 29 "[0x12, 0x34]"]
  note calls = t [THEN conjunct1]
  note snap = t [THEN conjunct2, THEN conjunct1]
  note val = t [THEN conjunct2, THEN conjunct2, THEN conjunct2, rule_format, OF h]
  have v: "get_characteristic ?r (0, 0, 0) =
      (Characteristic_init ''0001'' 2 32)
        \<lparr>c_state := SUBSCRIBING_INDICATION, c_packet := ''1234''\<rparr>"
    using val by (simp add: x c)
  have ne: "devices ?r \<noteq> devices indicating_app"
  proof
    assume "devices ?r = devices indicating_app"
    then have "get_characteristic ?r (0, 0, 0) = get_characteristic indicating_app (0, 0, 0)"
      by (simp add: get_characteristic_def)
    with v c show False
      by (simp add: Characteristic_init_def)
  qed
  from calls snap v ne show ?thesis
    by (simp add: l)
qed

text \<open>
  C7. Two advertisement reports for the same address, handled one after the other in a
  collection whose addresses are distinct, leave exactly one device with that address:
  the second report resolves to the device the first one created or updated, overwrites
  its packet, connectable flag, address type and RSSI with its own values, and adds no
  device; the addresses stay distinct.
\<close>

theorem advertisement_idempotent:
  assumes "distinct (map address (devices app))"
  shows "\<exists>k. get_device_by_address
            (devices (on_advertisement (on_advertisement app a dat1 fl1 at1 r1) a dat2 fl2 at2 r2))
            (upper a) = Some k
     \<and> devices (on_advertisement (on_advertisement app a dat1 fl1 at1 r1) a dat2 fl2 at2 r2) =
         (devices (on_advertisement app a dat1 fl1 at1 r1))
           [k := (devices (on_advertisement app a dat1 fl1 at1 r1) ! k)
              \<lparr>packet := upper (bytes_hex dat2), is_connectable := (fl2 AND 1 \<noteq> 0),
               address_type := Some at2, rssi := Some r2\<rparr>]
     \<and> k < length (devices (on_advertisement app a dat1 fl1 at1 r1))
     \<and> length (filter (\<lambda>d. address d = upper a)
         (devices (on_advertisement (on_advertisement app a dat1 fl1 at1 r1) a dat2 fl2 at2 r2)))
         = 1
     \<and> distinct (map address
         (devices (on_advertisement (on_advertisement app a dat1 fl1 at1 r1) a dat2 fl2 at2 r2)))"
proof -
  let ?app1 = "on_advertisement app a dat1 fl1 at1 r1"
  let ?app2 = "on_advertisement ?app1 a dat2 fl2 at2 r2"
  from on_advertisement_resolves obtain k where
    k: "get_device_by_address (devices ?app1) (upper a) = Some k"
    by blast
  then have kl: "k < length (devices ?app1)"
    by (rule get_device_by_address_bound)
  have ad: "address (devices ?app1 ! k) = upper a"
    using find_index_Some [OF k [unfolded get_device_by_address_def]] by simp
  note d2 = on_advertisement_known [OF k, of dat2 fl2 at2 r2]
  have k2: "get_device_by_address (devices ?app2) (upper a) = Some k"
    unfolding d2 using k by (simp add: get_device_by_address_update)
  have dist: "distinct (map address (devices ?app2))"
    by (intro on_advertisement_distinct assms)
  have kl2: "k < length (devices ?app2)"
    using kl by (simp add: d2)
  have ad2: "address (devices ?app2 ! k) = upper a"
    using kl ad by (simp add: d2)
  from distinct_key_unique [OF dist kl2]
  have one: "length (filter (\<lambda>d. address d = upper a) (devices ?app2)) = 1"
    by (simp add: ad2)
  show ?thesis
    using k2 d2 kl one dist
    by (intro exI [of _ k]) (simp add: device_on_advertisement_def)
qed

theorem advertisement_idempotent_witness:
  "devices (on_advertisement
      (on_advertisement ScannerApp_init ''00:11:22:33:44:55'' [0x12, 0x34] 1 1 (- 100))
      ''00:11:22:33:44:55'' [0x12, 0x34] 1 1 (- 100)) =
     [\<lparr>address = ''00:11:22:33:44:55'', handle = None, packet = ''1234'',
       is_connectable = True, address_type = Some 1, rssi = Some (- 100),
       is_connected = False, services = []\<rparr>]"
proof -
  let ?app1 = "on_advertisement ScannerApp_init ''00:11:22:33:44:55'' [0x12, 0x34] 1 1 (- 100)"
  have d: "distinct (map address (devices ScannerApp_init))"
    by (simp add: ScannerApp_init_def)
  have d1: "devices ?app1 =
     [\<lparr>address = ''00:11:22:33:44:55'', handle = None, packet = ''1234'',
       is_connectable = True, address_type = Some 1, rssi = Some (- 100),
       is_connected = False, services = []\<rparr>]"
    by code_simp
  have x: "upper (bytes_hex [0x12, 0x34]) = ''1234''"
    by code_simp
  have y: "((1::int) AND 1 \<noteq> 0) = True"
    by simp
  from advertisement_idempotent [OF d, of "''00:11:22:33:44:55''" "[0x12, 0x34]" 1 1 "- 100"
      "[0x12, 0x34]" 1 1 "- 100"]
  obtain k where
    "devices (on_advertisement ?app1 ''00:11:22:33:44:55'' [0x12, 0x34] 1 1 (- 100)) =
       (devices ?app1)[k := (devices ?app1 ! k)
          \<lparr>packet := upper (bytes_hex [0x12, 0x34]), is_connectable := ((1::int) AND 1 \<noteq> 0),
           address_type := Some 1, rssi := Some (- 100)\<rparr>]"
    "k < length (devices ?app1)"
    by blast
  then show ?thesis
    unfolding d1 x y by simp
qed

text \<open>
  C4. When some device of the collection holds a connection handle and is not connected,
  \<open>connect_device\<close> on any device returns the state as it was: no command is sent and
  the target's handle is left as it is. Every event and every public operation keeps the
  number of devices that hold a handle while not connected at one at most, so from the
  initial state at most one device is ever in that condition.
\<close>

theorem connect_exclusive:
  "(a < length (devices app) \<and> connecting (devices app ! a) \<longrightarrow>
      connect_device app b r = app)
   \<and> (length (filter connecting (devices app)) \<le> 1 \<longrightarrow>
      length (filter connecting (devices (foldl (perform ind) app acts))) \<le> 1)
   \<and> length (filter connecting (devices (foldl (perform ind) ScannerApp_init acts))) \<le> 1"
proof -
  have 1: "connect_device app b r = app"
    if "a < length (devices app)" "connecting (devices app ! a)"
  proof -
    from that have "list_ex (\<lambda>d. handle d \<noteq> None \<and> \<not> is_connected d) (devices app)"
      unfolding list_ex_iff connecting_def using nth_mem by blast
    then show ?thesis by (simp add: connect_device_def)
  qed
  have "length (filter connecting (devices ScannerApp_init)) \<le> 1"
    by (simp add: ScannerApp_init_def)
  then have 3: "length (filter connecting
      (devices (foldl (perform ind) ScannerApp_init acts))) \<le> 1"
    by (rule foldl_perform_connecting)
  from 1 3 foldl_perform_connecting [of app ind acts] show ?thesis by blast
qed

theorem connect_exclusive_witness:
  "connecting (devices two_devices_app ! 0)
   \<and> connect_device two_devices_app 1 2 = two_devices_app
   \<and> handle (devices (connect_device two_devices_app 1 2) ! 1) = None
   \<and> lib_calls (connect_device two_devices_app 1 2) = []
   \<and> length (filter connecting (devices (foldl (perform 29) two_devices_app
        [Connect 1 2, Event (bt_evt_connection_opened ''00:11:22:33:44:55'' 1), Connect 1 2])))
      \<le> 1"
proof -
  have h: "0 < length (devices two_devices_app) \<and> connecting (devices two_devices_app ! 0)"
    by (simp add: two_devices_app_def connecting_def test_device_def Device_init_def)
  have one: "length (filter connecting (devices two_devices_app)) \<le> 1"
    by (simp add: two_devices_app_def connecting_def test_device_def Device_init_def)
  note t = connect_exclusive [of 0 two_devices_app 1 2 29
      "[Connect 1 2, Event (bt_evt_connection_opened ''00:11:22:33:44:55'' 1), Connect 1 2]"]
  from t [THEN conjunct1, rule_format, OF h]
  have c: "connect_device two_devices_app 1 2 = two_devices_app" .
  from t [THEN conjunct2, THEN conjunct1, rule_format, OF one] h c show ?thesis
    by (simp add: two_devices_app_def Device_init_def ScannerApp_init_def)
qed

end
